theory Spec2Isabelle
  imports
    Main
    "HOL-Library.AList"
    "HOL-Library.Sublist"
    "HOL-Library.Multiset"
    "HOL-Library.Char_ord"
    "HOL-Library.List_Lexorder"
    "HOL-Library.Product_Lexorder"
begin

section \<open>Lockfile generation scripts: a shallow embedding\<close>

text \<open>
  The three scripts under \<^verbatim>\<open>lockfile-generation/\<close> are embedded as HOL functions:
  \<^verbatim>\<open>resolve_urls.py\<close>, \<^verbatim>\<open>lockfile_from_urls.py\<close> and
  \<^verbatim>\<open>enhance_with_size_and_checksum.py\<close>. Python strings are \<^typ>\<open>string\<close>
  (characters with code points below 256); exceptions are values of the type \<open>error\<close>
  and a function that may raise returns \<open>error + 'a\<close> with \<open>Inl\<close> for the exception.
  The scripts need Python 3.11 or later (\<^verbatim>\<open>typing.Self\<close>,
  \<^verbatim>\<open>hashlib.file_digest\<close>); the standard-library functions they call
  (\<^verbatim>\<open>urllib.parse.urlsplit\<close>, \<^verbatim>\<open>pathlib.PurePosixPath\<close>,
  \<^verbatim>\<open>string.Template\<close>) are modelled after CPython 3.12 on a POSIX system.
\<close>

subsection \<open>Exceptions\<close>

datatype error =
    InvalidURL string
      \<comment> \<open>\<^verbatim>\<open>ValueError\<close> raised inside \<^verbatim>\<open>urllib.parse.urlsplit\<close> for the given input\<close>
  | NoMatchingBaseurl
      \<comment> \<open>\<^verbatim>\<open>ValueError("Couldn't find matching baseurl for ...")\<close>\<close>
  | UnpackError
      \<comment> \<open>\<^verbatim>\<open>ValueError\<close> of a tuple unpacking with the wrong number of values\<close>
  | KeyError string
  | TypeError
      \<comment> \<open>\<^verbatim>\<open>TypeError\<close> or \<^verbatim>\<open>AttributeError\<close>: an operation on a value of the wrong type\<close>
  | CalledProcessError int
      \<comment> \<open>raised by \<^verbatim>\<open>check_returncode\<close>, with the exit status\<close>
  | OSError string
      \<comment> \<open>\<^verbatim>\<open>FileNotFoundError\<close> and its siblings, with the message\<close>
  | ConfigParserError string
      \<comment> \<open>an error of \<^verbatim>\<open>configparser\<close>: a file that does not parse, a value that does not interpolate\<close>

subsection \<open>Python string operations\<close>

definition startswith :: "string \<Rightarrow> string \<Rightarrow> bool" where
  "startswith s p = (take (length p) s = p)"

definition endswith :: "string \<Rightarrow> string \<Rightarrow> bool" where
  "endswith s p = (length p \<le> length s \<and> drop (length s - length p) s = p)"

text \<open>\<^verbatim>\<open>s.split(sep)\<close> for a one-character separator: never empty, keeps empty pieces.\<close>

fun split_on :: "char \<Rightarrow> string \<Rightarrow> string list" where
  "split_on c [] = [[]]"
| "split_on c (x # xs) =
     (if x = c then [] # split_on c xs
      else (case split_on c xs of [] \<Rightarrow> [[x]] | w # ws \<Rightarrow> (x # w) # ws))"

definition is_ascii_alpha :: "char \<Rightarrow> bool" where
  "is_ascii_alpha c =
     ((CHR ''a'' \<le> c \<and> c \<le> CHR ''z'') \<or> (CHR ''A'' \<le> c \<and> c \<le> CHR ''Z''))"

definition is_ascii_digit :: "char \<Rightarrow> bool" where
  "is_ascii_digit c = (CHR ''0'' \<le> c \<and> c \<le> CHR ''9'')"

definition ascii_lower :: "char \<Rightarrow> char" where
  "ascii_lower c =
     (if CHR ''A'' \<le> c \<and> c \<le> CHR ''Z'' then char_of (of_char c + (32::nat)) else c)"

definition isascii :: "string \<Rightarrow> bool" where
  "isascii s = list_all (\<lambda>c. of_char c < (128::nat)) s"

text \<open>\<^verbatim>\<open>str.split()\<close>: the maximal runs of characters that are not white space.\<close>

definition isspace :: "char \<Rightarrow> bool" where
  "isspace c =
     (let n = (of_char c :: nat)
      in (9 \<le> n \<and> n \<le> 13) \<or> (28 \<le> n \<and> n \<le> 32) \<or> n = 133 \<or> n = 160)"

fun split_ws :: "string \<Rightarrow> string list" where
  "split_ws [] = []"
| "split_ws (c # cs) =
     (if isspace c then split_ws cs
      else (case cs of
              [] \<Rightarrow> [[c]]
            | d # ds \<Rightarrow>
                if isspace d then [c] # split_ws cs
                else (case split_ws cs of [] \<Rightarrow> [[c]] | w # ws \<Rightarrow> (c # w) # ws)))"

text \<open>
  \<^verbatim>\<open>str.splitlines()\<close>: the text is cut after each line boundary (line feed, carriage
  return, the two together, vertical tab, form feed, the file, group and record
  separators, next line); the boundaries are dropped and no empty last line is added.
\<close>

definition is_linebreak :: "char \<Rightarrow> bool" where
  "is_linebreak c =
     (let n = (of_char c :: nat) in (10 \<le> n \<and> n \<le> 13) \<or> (28 \<le> n \<and> n \<le> 30) \<or> n = 133)"

fun splitlines_from :: "string \<Rightarrow> string \<Rightarrow> string list" where
  "splitlines_from cur [] = (if cur = [] then [] else [rev cur])"
| "splitlines_from cur [c] =
     (if is_linebreak c then [rev cur] else [rev (c # cur)])"
| "splitlines_from cur (c # d # ds) =
     (if c = CHR 0x0D \<and> d = CHR 0x0A then rev cur # splitlines_from [] ds
      else if is_linebreak c then rev cur # splitlines_from [] (d # ds)
      else splitlines_from (c # cur) (d # ds))"

definition splitlines :: "string \<Rightarrow> string list" where
  "splitlines s = splitlines_from [] s"

subsection \<open>\<^verbatim>\<open>pathlib\<close>: pure POSIX paths\<close>

text \<open>
  A \<^verbatim>\<open>PurePosixPath\<close> is its root (\<open>''''\<close>, \<open>''/''\<close> or \<open>''//''\<close>) and its tail,
  the list of its components; two paths are equal when both are.
\<close>

record PurePath =
  root :: string
  tail :: "string list"

text \<open>\<^verbatim>\<open>posixpath.splitroot\<close>, without the drive (always empty on POSIX).\<close>

definition splitroot :: "string \<Rightarrow> string \<times> string" where
  "splitroot p =
     (if take 1 p \<noteq> ''/'' then ('''', p)
      else if take 1 (drop 1 p) \<noteq> ''/'' \<or> take 1 (drop 2 p) = ''/'' then (''/'', drop 1 p)
      else (take 2 p, drop 2 p))"

text \<open>\<^verbatim>\<open>PurePath._parse_path\<close>: empty components and \<open>''.''\<close> are dropped, \<open>''..''\<close> is kept.\<close>

definition Path :: "string \<Rightarrow> PurePath" where
  "Path p =
     (if p = [] then \<lparr>root = [], tail = []\<rparr>
      else (case splitroot p of (r, rel) \<Rightarrow>
        \<lparr>root = r, tail = filter (\<lambda>x. x \<noteq> [] \<and> x \<noteq> ''.'') (split_on CHR ''/'' rel)\<rparr>))"

text \<open>\<^verbatim>\<open>PurePath.name\<close>: the final component, if any.\<close>

definition name :: "PurePath \<Rightarrow> string" where
  "name p = (if tail p = [] then [] else last (tail p))"

text \<open>\<^verbatim>\<open>PurePath.suffix\<close>: from the last dot of the name, unless it is first or last.\<close>

definition rfind_dot :: "string \<Rightarrow> nat option" where
  "rfind_dot s =
     (if CHR ''.'' \<in> set s then Some (length s - 1 - length (takeWhile (\<lambda>c. c \<noteq> CHR ''.'') (rev s)))
      else None)"

definition suffix_of :: "PurePath \<Rightarrow> string" where
  "suffix_of p =
     (case rfind_dot (name p) of
        None \<Rightarrow> []
      | Some i \<Rightarrow> if 0 < i \<and> i < length (name p) - 1 then drop i (name p) else [])"

text \<open>\<^verbatim>\<open>PurePath.parents\<close>: the tail cut by one component, by two, ..., down to the root.\<close>

definition parents :: "PurePath \<Rightarrow> PurePath list" where
  "parents p = map (\<lambda>n. \<lparr>root = root p, tail = take n (tail p)\<rparr>) (rev [0..<length (tail p)])"

text \<open>\<^verbatim>\<open>PurePath.is_relative_to\<close>: \<^verbatim>\<open>other == self or other in self.parents\<close>.\<close>

definition is_relative_to :: "PurePath \<Rightarrow> PurePath \<Rightarrow> bool" where
  "is_relative_to self other = (other = self \<or> other \<in> set (parents self))"

text \<open>\<^verbatim>\<open>posixpath.join\<close> of two strings, and \<^verbatim>\<open>path / segment\<close>.\<close>

definition posix_join :: "string \<Rightarrow> string \<Rightarrow> string" where
  "posix_join a b =
     (if startswith b ''/'' then b
      else if a = [] \<or> endswith a ''/'' then a @ b
      else a @ ''/'' @ b)"

subsection \<open>\<^verbatim>\<open>urllib.parse.urlsplit\<close>\<close>

record URL =
  scheme :: string
  netloc :: string
  path :: string
  query :: string
  fragment :: string

definition is_scheme_char :: "char \<Rightarrow> bool" where
  "is_scheme_char c = (is_ascii_alpha c \<or> is_ascii_digit c \<or> c \<in> set ''+-.'')"

definition split_scheme :: "string \<Rightarrow> string \<times> string" where
  "split_scheme url =
     (let pre = takeWhile (\<lambda>c. c \<noteq> CHR '':'') url in
      if CHR '':'' \<in> set url \<and> pre \<noteq> [] \<and> is_ascii_alpha (hd url) \<and> list_all is_scheme_char pre
      then (map ascii_lower pre, drop (length pre + 1) url)
      else ([], url))"

definition is_netloc_delim :: "char \<Rightarrow> bool" where
  "is_netloc_delim c = (c \<in> set ''/?#'')"

text \<open>\<^verbatim>\<open>_splitnetloc(url, 2)\<close>, applied when the text starts with two slashes.\<close>

definition splitnetloc :: "string \<Rightarrow> string \<times> string" where
  "splitnetloc url =
     (takeWhile (\<lambda>c. \<not> is_netloc_delim c) (drop 2 url),
      dropWhile (\<lambda>c. \<not> is_netloc_delim c) (drop 2 url))"

text \<open>\<^verbatim>\<open>s.split(c, 1)\<close> when \<open>c\<close> occurs in \<open>s\<close>: the text before and after its first occurrence.\<close>

definition split_first :: "char \<Rightarrow> string \<Rightarrow> string \<times> string" where
  "split_first c s = (takeWhile (\<lambda>x. x \<noteq> c) s, drop 1 (dropWhile (\<lambda>x. x \<noteq> c) s))"

text \<open>
  The splitting done by \<open>urlsplit\<close>: leading C0 control characters and spaces are
  stripped, tab, carriage return and line feed are removed, and the scheme, the netloc,
  the fragment and the query are split off the text, in this order.
\<close>

definition split_parts :: "string \<Rightarrow> URL" where
  "split_parts url =
     (let url1 = dropWhile (\<lambda>c. of_char c \<le> (32::nat)) url;
          url2 = filter (\<lambda>c. c \<notin> {CHR 0x09, CHR 0x0D, CHR 0x0A}) url1;
          (sch, url3) = split_scheme url2;
          (loc, url4) = (if take 2 url3 = ''//'' then splitnetloc url3 else ([], url3));
          (url5, frag) = (if CHR ''#'' \<in> set url4 then split_first CHR ''#'' url4 else (url4, []));
          (url6, qry) = (if CHR ''?'' \<in> set url5 then split_first CHR ''?'' url5 else (url5, []))
      in \<lparr>scheme = sch, netloc = loc, path = url6, query = qry, fragment = frag\<rparr>)"

text \<open>
  \<open>urlsplit\<close> raises \<^verbatim>\<open>ValueError\<close> when the netloc has one kind of square bracket
  without the other. The remaining checks of the netloc (the host between brackets, by
  \<^verbatim>\<open>ipaddress\<close>; a non-ASCII netloc, by its NFKC normal form) depend on the patch
  level of the library and are the parameter \<open>netloc_valid\<close>: it is consulted for these
  netlocs only. The checks read the netloc alone and only raise, so they are written
  after the splitting here.
\<close>

definition urlsplit :: "(string \<Rightarrow> bool) \<Rightarrow> string \<Rightarrow> error + URL" where
  "urlsplit netloc_valid url =
     (let u = split_parts url;
          lb = (CHR ''['' \<in> set (netloc u));
          rb = (CHR '']'' \<in> set (netloc u))
      in if lb \<noteq> rb then Inl (InvalidURL url)
         else if ((lb \<and> rb) \<or> (netloc u \<noteq> [] \<and> \<not> isascii (netloc u)))
                 \<and> \<not> netloc_valid (netloc u)
           then Inl (InvalidURL url)
         else Inr u)"

text \<open>
  The host of a split URL, as the properties \<^verbatim>\<open>_hostinfo\<close> and \<^verbatim>\<open>hostname\<close> of
  the result of \<open>urlsplit\<close> give it. The scripts never read them: \<open>map_url_to_repoid\<close>
  compares the whole netloc, which also holds the user information and the port.
  \<open>s.partition(c)\<close> gives the text before and the text after the first \<open>c\<close>, the whole
  text and the empty text when there is none, which is \<open>split_first c s\<close>;
  \<open>s.rpartition(c)\<close> ends with the text after the last \<open>c\<close>, the whole text when there
  is none.
\<close>

definition hostinfo :: "URL \<Rightarrow> string \<times> string option" where
  "hostinfo u =
     (let hi = rev (takeWhile (\<lambda>c. c \<noteq> CHR ''@'') (rev (netloc u)));
          (h, p) = (if CHR ''['' \<in> set hi
                    then (let (h, rest) = split_first CHR '']'' (snd (split_first CHR ''['' hi))
                          in (h, snd (split_first CHR '':'' rest)))
                    else split_first CHR '':'' hi)
      in (h, if p = [] then None else Some p))"

text \<open>
  \<^verbatim>\<open>str.lower\<close> on the characters of \<^typ>\<open>string\<close>: the letters A to Z and the
  capital letters of Latin-1 (code points 192 to 222 without the multiplication sign,
  215) move up by 32.
\<close>

definition lower_char :: "char \<Rightarrow> char" where
  "lower_char c =
     (let n = (of_char c :: nat)
      in if (65 \<le> n \<and> n \<le> 90) \<or> (192 \<le> n \<and> n \<le> 222 \<and> n \<noteq> 215) then char_of (n + 32) else c)"

text \<open>The host in lower case, a zone after \<open>%\<close> left as it is; \<open>None\<close> without a host.\<close>

definition hostname :: "URL \<Rightarrow> string option" where
  "hostname u =
     (let h = fst (hostinfo u)
      in if h = [] then None
         else Some (map lower_char (takeWhile (\<lambda>c. c \<noteq> CHR ''%'') h)
                    @ dropWhile (\<lambda>c. c \<noteq> CHR ''%'') h))"

subsection \<open>\<^verbatim>\<open>string.Template.safe_substitute\<close>\<close>

text \<open>
  The template is scanned from the left for the delimiter \<open>$\<close>: \<open>$$\<close> gives \<open>$\<close>;
  \<open>$name\<close> and \<open>${name}\<close>, for an ASCII identifier taken as long as possible, give the
  value of \<open>name\<close> in the mapping, or stay as they are when the mapping has none; any
  other \<open>$\<close> stays.
\<close>

definition is_id_start :: "char \<Rightarrow> bool" where
  "is_id_start c = (c = CHR ''_'' \<or> is_ascii_alpha c)"

definition is_id_char :: "char \<Rightarrow> bool" where
  "is_id_char c = (is_id_start c \<or> is_ascii_digit c)"

lemma length_dropWhile_drop_diff: "length (dropWhile P (drop n xs)) - k \<le> length xs"
proof -
  have "length (dropWhile P (drop n xs)) \<le> length (drop n xs)"
    by (rule length_dropWhile_le)
  then show ?thesis by simp
qed

function safe_substitute :: "(string \<rightharpoonup> string) \<Rightarrow> string \<Rightarrow> string" where
  "safe_substitute m [] = []"
| "safe_substitute m (c # cs) =
     (if c \<noteq> CHR ''$'' then c # safe_substitute m cs
      else if take 1 cs = ''$'' then CHR ''$'' # safe_substitute m (drop 1 cs)
      else if cs \<noteq> [] \<and> is_id_start (hd cs) then
        (case m (takeWhile is_id_char cs) of
           Some v \<Rightarrow> v
         | None \<Rightarrow> CHR ''$'' # takeWhile is_id_char cs)
        @ safe_substitute m (dropWhile is_id_char cs)
      else if take 1 cs = ''{'' \<and> drop 1 cs \<noteq> [] \<and> is_id_start (hd (drop 1 cs))
              \<and> take 1 (dropWhile is_id_char (drop 1 cs)) = ''}'' then
        (case m (takeWhile is_id_char (drop 1 cs)) of
           Some v \<Rightarrow> v
         | None \<Rightarrow> ''${'' @ takeWhile is_id_char (drop 1 cs) @ ''}'')
        @ safe_substitute m (drop 1 (dropWhile is_id_char (drop 1 cs)))
      else CHR ''$'' # safe_substitute m cs)"
  by pat_completeness auto
termination
  by (relation "measure (\<lambda>(m, s). length s)")
     (auto simp: less_Suc_eq_le length_dropWhile_drop_diff
           intro: le_trans [OF length_dropWhile_le])

subsection \<open>\<^verbatim>\<open>resolve_urls.py\<close>: the repository set\<close>

text \<open>
  What \<^verbatim>\<open>configparser\<close> makes of the files of the directory is given: a directory
  entry is its name, whether it is a file, and the items of the parser after reading it
  (the \<open>DEFAULT\<close> section among them) or the error the parser raises. The attributes of
  a section are what a lookup in the section gives for an option name: nothing when the
  section has no such option (the lookup raises \<^verbatim>\<open>KeyError\<close>), else the value, or the
  error raised by the interpolation of the value.
\<close>

type_synonym section_attrs = "string \<rightharpoonup> error + string"

record dir_entry =
  entry_name :: string
  is_file :: bool
  parsed_items :: "error + (string \<times> section_attrs) list"

type_synonym RepoID = string

type_synonym RepoSet = "(RepoID \<times> section_attrs) list"

definition DEFAULTSECT :: string where
  "DEFAULTSECT = ''DEFAULT''"

text \<open>\<^verbatim>\<open>dict.update\<close> with a sequence of pairs: each key is set in turn.\<close>

definition dict_update :: "('k \<times> 'v) list \<Rightarrow> ('k \<times> 'v) list \<Rightarrow> ('k \<times> 'v) list" where
  "dict_update d kvs = fold (\<lambda>kv acc. AList.update (fst kv) (snd kv) acc) kvs d"

fun parse_dir_loop :: "dir_entry list \<Rightarrow> RepoSet \<Rightarrow> error + RepoSet" where
  "parse_dir_loop [] repos = Inr repos"
| "parse_dir_loop (f # fs) repos =
     (if is_file f \<and> suffix_of (Path (entry_name f)) = ''.repo''
      then (case parsed_items f of
              Inl e \<Rightarrow> Inl e
            | Inr its \<Rightarrow>
                parse_dir_loop fs
                  (dict_update repos (filter (\<lambda>it. fst it \<noteq> DEFAULTSECT) its)))
      else parse_dir_loop fs repos)"

definition parse_dir :: "dir_entry list \<Rightarrow> error + RepoSet" where
  "parse_dir reposdir = parse_dir_loop reposdir []"

text \<open>
  \<^verbatim>\<open>map_expanded_baseurls\<close>: the inner loop over the repositories for one architecture,
  and the outer loop over the architectures. \<^verbatim>\<open>attrs["baseurl"]\<close> raises
  \<^verbatim>\<open>KeyError\<close> when the section has no such option.
\<close>

fun expand_repos ::
  "(string \<Rightarrow> bool) \<Rightarrow> string \<Rightarrow> RepoSet \<Rightarrow> (URL \<times> RepoID) list \<Rightarrow> error + (URL \<times> RepoID) list" where
  "expand_repos nv a [] mapping = Inr mapping"
| "expand_repos nv a ((repoid, attrs) # rest) mapping =
     (case attrs ''baseurl'' of
        None \<Rightarrow> Inl (KeyError ''baseurl'')
      | Some (Inl e) \<Rightarrow> Inl e
      | Some (Inr template) \<Rightarrow>
          (case urlsplit nv (safe_substitute [''basearch'' \<mapsto> a] template) of
             Inl e \<Rightarrow> Inl e
           | Inr baseurl \<Rightarrow> expand_repos nv a rest (AList.update baseurl repoid mapping)))"

fun expand_arches ::
  "(string \<Rightarrow> bool) \<Rightarrow> string list \<Rightarrow> RepoSet \<Rightarrow> (URL \<times> RepoID) list \<Rightarrow> error + (URL \<times> RepoID) list" where
  "expand_arches nv [] repos mapping = Inr mapping"
| "expand_arches nv (a # rest) repos mapping =
     (case expand_repos nv a repos mapping of
        Inl e \<Rightarrow> Inl e
      | Inr mapping' \<Rightarrow> expand_arches nv rest repos mapping')"

definition map_expanded_baseurls ::
  "(string \<Rightarrow> bool) \<Rightarrow> RepoSet \<Rightarrow> string list \<Rightarrow> error + (URL \<times> RepoID) list" where
  "map_expanded_baseurls nv self arch_list = expand_arches nv arch_list self []"

subsection \<open>\<^verbatim>\<open>resolve_urls.py\<close>: matching a URL against the expanded base URLs\<close>

text \<open>The condition of the \<^verbatim>\<open>if\<close> in the loop of \<^verbatim>\<open>map_url_to_repoid\<close>.\<close>

definition url_matches :: "URL \<Rightarrow> URL \<Rightarrow> bool" where
  "url_matches package_url baseurl =
     (scheme package_url = scheme baseurl
      \<and> netloc package_url = netloc baseurl
      \<and> is_relative_to (Path (path package_url)) (Path (path baseurl)))"

text \<open>
  The dictionary \<^verbatim>\<open>baseurls_to_repoids\<close> is the list of its items in insertion
  order, which is the order the loop visits them in; the loop returns at the first match
  and the function raises when the loop ends.
\<close>

fun first_match :: "URL \<Rightarrow> (URL \<times> RepoID) list \<Rightarrow> error + RepoID" where
  "first_match package_url [] = Inl NoMatchingBaseurl"
| "first_match package_url ((baseurl, repoid) # rest) =
     (if url_matches package_url baseurl then Inr repoid else first_match package_url rest)"

text \<open>
  The argument is a string (\<open>Inl\<close>), which is split first, or an already split URL
  (\<open>Inr\<close>).
\<close>

definition split_if_str :: "(string \<Rightarrow> bool) \<Rightarrow> string + URL \<Rightarrow> error + URL" where
  "split_if_str netloc_valid package_url =
     (case package_url of Inl s \<Rightarrow> urlsplit netloc_valid s | Inr u \<Rightarrow> Inr u)"

definition map_url_to_repoid ::
  "(string \<Rightarrow> bool) \<Rightarrow> string + URL \<Rightarrow> (URL \<times> RepoID) list \<Rightarrow> error + RepoID" where
  "map_url_to_repoid netloc_valid package_url baseurls_to_repoids =
     (case split_if_str netloc_valid package_url of
        Inl e \<Rightarrow> Inl e
      | Inr u \<Rightarrow> first_match u baseurls_to_repoids)"

subsection \<open>\<^verbatim>\<open>resolve_urls.py\<close>: asking the package manager\<close>

text \<open>
  The outcome of \<^verbatim>\<open>subprocess.run(cmd, capture_output=True, text=True)\<close>. The external
  tool is the parameter \<open>run\<close>: from the state of the world and the command line to the
  completed process, or to the error raised when the program cannot be started, and the
  state of the world after the call. What the function prints on the diagnostic stream is
  returned as a list: the warning about the repository, or the tool's own diagnostic text.
\<close>

record completed_process =
  returncode :: int
  stdout :: string
  stderr :: string

datatype diagnostic =
    Warning RepoID
      \<comment> \<open>\<^verbatim>\<open>warning: couldn't get any SRPMs for the RPMs from ...\<close>\<close>
  | ToolStderr string

definition dnf_cmd :: "string list \<Rightarrow> string \<Rightarrow> RepoID \<Rightarrow> string \<Rightarrow> bool \<Rightarrow> string list" where
  "dnf_cmd pkgs reposdir repoid a want_source =
     [''dnf'', ''--setopt=reposdir='' @ reposdir, ''--forcearch='' @ a, ''download'', ''--url'']
     @ (if \<not> want_source then [''--repo='' @ repoid] else [''--source''])
     @ pkgs"

text \<open>The list comprehension of the last line: the lines whose split has a scheme.\<close>

fun filter_urls :: "(string \<Rightarrow> bool) \<Rightarrow> string list \<Rightarrow> error + string list" where
  "filter_urls nv [] = Inr []"
| "filter_urls nv (l # ls) =
     (case urlsplit nv l of
        Inl e \<Rightarrow> Inl e
      | Inr u \<Rightarrow>
          (case filter_urls nv ls of
             Inl e \<Rightarrow> Inl e
           | Inr urls \<Rightarrow> Inr (if scheme u \<noteq> [] then l # urls else urls)))"

text \<open>Whether a line of the tool's output is kept: it splits and its split has a scheme.\<close>

definition has_scheme :: "(string \<Rightarrow> bool) \<Rightarrow> string \<Rightarrow> bool" where
  "has_scheme nv l = (case urlsplit nv l of Inl e \<Rightarrow> False | Inr u \<Rightarrow> scheme u \<noteq> [])"

definition resolve_urls ::
  "(string \<Rightarrow> bool) \<Rightarrow> ('w \<Rightarrow> string list \<Rightarrow> (error + completed_process) \<times> 'w) \<Rightarrow> 'w
     \<Rightarrow> string list \<Rightarrow> string \<Rightarrow> RepoID \<Rightarrow> string \<Rightarrow> bool
     \<Rightarrow> (error + string list) \<times> diagnostic list \<times> 'w" where
  "resolve_urls nv run w pkgs reposdir repoid a want_source =
     (case run w (dnf_cmd pkgs reposdir repoid a want_source) of
        (Inl e, w') \<Rightarrow> (Inl e, [], w')
      | (Inr proc, w') \<Rightarrow>
          (if returncode proc \<noteq> 0
           then (if \<not> want_source
                 then (Inl (CalledProcessError (returncode proc)), [ToolStderr (stderr proc)], w')
                 else (filter_urls nv (splitlines (stdout proc)),
                       [Warning repoid, ToolStderr (stderr proc)], w'))
           else (filter_urls nv (splitlines (stdout proc)), [], w')))"

text \<open>
  \<^verbatim>\<open>parse_packages_per_repoid\<close>: each line is a package and a repository identifier
  between parentheses; the \<^verbatim>\<open>defaultdict\<close> is the list of its items.
\<close>

definition strip_parens :: "string \<Rightarrow> string" where
  "strip_parens s =
     rev (dropWhile (\<lambda>c. c = CHR '')'') (rev (dropWhile (\<lambda>c. c = CHR ''('') s)))"

fun parse_packages_loop ::
  "string list \<Rightarrow> (RepoID \<times> string list) list \<Rightarrow> error + (RepoID \<times> string list) list" where
  "parse_packages_loop [] acc = Inr acc"
| "parse_packages_loop (line # rest) acc =
     (case split_ws line of
        [package, repoid] \<Rightarrow>
          parse_packages_loop rest
            (AList.update (strip_parens repoid)
               ((case map_of acc (strip_parens repoid) of None \<Rightarrow> [] | Some ps \<Rightarrow> ps)
                @ [package]) acc)
      | _ \<Rightarrow> Inl UnpackError)"

definition parse_packages_per_repoid :: "string list \<Rightarrow> error + (RepoID \<times> string list) list" where
  "parse_packages_per_repoid input_file = parse_packages_loop input_file []"

text \<open>
  \<^verbatim>\<open>main\<close>. A run ends with the exception raised, if any, the triples printed, the
  diagnostics printed and the state of the world. The three loops, from the inside: over
  the URLs of a repository, over the repositories, over the architectures.
\<close>

record 'w outcome =
  raised :: "error option"
  printed :: "(string \<times> RepoID \<times> string) list"
  diagnostics :: "diagnostic list"
  world :: 'w

fun url_loop ::
  "(string \<Rightarrow> bool) \<Rightarrow> (URL \<times> RepoID) list \<Rightarrow> string \<Rightarrow> string list \<Rightarrow> 'w outcome \<Rightarrow> 'w outcome" where
  "url_loop nv baseurls_to_repoids a [] s = s"
| "url_loop nv baseurls_to_repoids a (u # us) s =
     (case map_url_to_repoid nv (Inl u) baseurls_to_repoids of
        Inl e \<Rightarrow> s\<lparr>raised := Some e\<rparr>
      | Inr repoid \<Rightarrow>
          url_loop nv baseurls_to_repoids a us (s\<lparr>printed := printed s @ [(a, repoid, u)]\<rparr>))"

fun repo_loop ::
  "(string \<Rightarrow> bool) \<Rightarrow> ('w \<Rightarrow> string list \<Rightarrow> (error + completed_process) \<times> 'w) \<Rightarrow> string
     \<Rightarrow> (URL \<times> RepoID) list \<Rightarrow> string \<Rightarrow> (RepoID \<times> string list) list \<Rightarrow> 'w outcome
     \<Rightarrow> 'w outcome" where
  "repo_loop nv run reposdir baseurls_to_repoids a [] s = s"
| "repo_loop nv run reposdir baseurls_to_repoids a ((repoid, pkgs) # rest) s =
     (case resolve_urls nv run (world s) pkgs reposdir repoid a False of
        (Inl e, d1, w1) \<Rightarrow>
          s\<lparr>raised := Some e, diagnostics := diagnostics s @ d1, world := w1\<rparr>
      | (Inr urls, d1, w1) \<Rightarrow>
          (case resolve_urls nv run w1 pkgs reposdir repoid a True of
             (Inl e, d2, w2) \<Rightarrow>
               s\<lparr>raised := Some e, diagnostics := diagnostics s @ d1 @ d2, world := w2\<rparr>
           | (Inr source_urls, d2, w2) \<Rightarrow>
               (let s' = url_loop nv baseurls_to_repoids a (sort urls @ sort source_urls)
                           (s\<lparr>diagnostics := diagnostics s @ d1 @ d2, world := w2\<rparr>)
                in if raised s' \<noteq> None then s'
                   else repo_loop nv run reposdir baseurls_to_repoids a rest s')))"

fun arch_loop ::
  "(string \<Rightarrow> bool) \<Rightarrow> ('w \<Rightarrow> string list \<Rightarrow> (error + completed_process) \<times> 'w) \<Rightarrow> string
     \<Rightarrow> (URL \<times> RepoID) list \<Rightarrow> (RepoID \<times> string list) list \<Rightarrow> string list \<Rightarrow> 'w outcome
     \<Rightarrow> 'w outcome" where
  "arch_loop nv run reposdir baseurls_to_repoids packages_per_repoid [] s = s"
| "arch_loop nv run reposdir baseurls_to_repoids packages_per_repoid (a # rest) s =
     (let s' = repo_loop nv run reposdir baseurls_to_repoids a (sort packages_per_repoid) s
      in if raised s' \<noteq> None then s'
         else arch_loop nv run reposdir baseurls_to_repoids packages_per_repoid rest s')"

text \<open>
  The arguments are what the command line gives: the lines of the input file, the
  entries of \<^verbatim>\<open>--reposdir\<close> and its resolved path, the \<^verbatim>\<open>--arch\<close> options (empty when
  none is given) and the machine of the platform, the default architecture.
\<close>

definition resolve_urls_main ::
  "(string \<Rightarrow> bool) \<Rightarrow> ('w \<Rightarrow> string list \<Rightarrow> (error + completed_process) \<times> 'w) \<Rightarrow> 'w
     \<Rightarrow> string list \<Rightarrow> dir_entry list \<Rightarrow> string \<Rightarrow> string list \<Rightarrow> string \<Rightarrow> 'w outcome" where
  "resolve_urls_main nv run w input_file reposdir_entries reposdir arch_args machine =
     (let arch_list = (if arch_args = [] then [machine] else arch_args);
          start = \<lparr>raised = None, printed = [], diagnostics = [], world = w\<rparr>
      in case parse_packages_per_repoid input_file of
           Inl e \<Rightarrow> start\<lparr>raised := Some e\<rparr>
         | Inr packages_per_repoid \<Rightarrow>
             (case parse_dir reposdir_entries of
                Inl e \<Rightarrow> start\<lparr>raised := Some e\<rparr>
              | Inr repos \<Rightarrow>
                  (case map_expanded_baseurls nv repos arch_list of
                     Inl e \<Rightarrow> start\<lparr>raised := Some e\<rparr>
                   | Inr baseurls_to_repoids \<Rightarrow>
                       arch_loop nv run reposdir baseurls_to_repoids packages_per_repoid
                         (sort arch_list) start)))"

subsection \<open>\<^verbatim>\<open>lockfile_from_urls.py\<close>: assembling the lockfile\<close>

text \<open>
  \<^verbatim>\<open>ResolvedRPM\<close> is a named tuple \<open>(arch, repoid, url)\<close>: it is compared, and so
  sorted, as a tuple of strings, strings by the code points of their characters.
\<close>

type_synonym ResolvedRPM = "string \<times> string \<times> string"

definition rpm_arch :: "ResolvedRPM \<Rightarrow> string" where
  "rpm_arch rpm = fst rpm"

definition rpm_repoid :: "ResolvedRPM \<Rightarrow> string" where
  "rpm_repoid rpm = fst (snd rpm)"

definition rpm_url :: "ResolvedRPM \<Rightarrow> string" where
  "rpm_url rpm = snd (snd rpm)"

text \<open>\<^verbatim>\<open>ResolvedRPM.filename\<close>: the name of the path of the split URL.\<close>

definition filename :: "(string \<Rightarrow> bool) \<Rightarrow> string \<Rightarrow> error + string" where
  "filename netloc_valid u =
     (case urlsplit netloc_valid u of Inl e \<Rightarrow> Inl e | Inr sp \<Rightarrow> Inr (name (Path (path sp))))"

text \<open>
  JSON values, numbers being integers. An object is the list of its items in key order,
  as a Python dictionary keeps them.
\<close>

datatype json =
    JNull
  | JBool bool
  | JInt int
  | JStr string
  | JArr "json list"
  | JObj "(string \<times> json) list"

text \<open>
  The lockfile document: an artifact entry is a dictionary (\<open>url\<close>, \<open>repoid\<close> and,
  once enriched, \<open>size\<close> and \<open>checksum\<close>); the entry of an architecture and the
  document have the keys the script writes.
\<close>

type_synonym rpm_entry = "(string \<times> json) list"

record arch_data =
  arch :: string
  packages :: "rpm_entry list"
  source :: "rpm_entry list"

record lockfile =
  lockfileVersion :: int
  lockfileVendor :: string
  arches :: "arch_data list"

definition item :: "ResolvedRPM \<Rightarrow> rpm_entry" where
  "item rpm = [(''url'', JStr (rpm_url rpm)), (''repoid'', JStr (rpm_repoid rpm))]"

text \<open>
  The \<^verbatim>\<open>defaultdict\<close> \<open>arch_data\<close> is the list of its items in insertion order, each
  the pair of the \<open>packages\<close> and the \<open>source\<close> list of an architecture; a missing key
  starts with both empty. \<open>add_item\<close> is one round of the loop after the filename is known.
\<close>

definition add_item ::
  "bool \<Rightarrow> ResolvedRPM \<Rightarrow> (string \<times> rpm_entry list \<times> rpm_entry list) list
     \<Rightarrow> (string \<times> rpm_entry list \<times> rpm_entry list) list" where
  "add_item is_source rpm acc =
     (case (case map_of acc (rpm_arch rpm) of None \<Rightarrow> ([], []) | Some d \<Rightarrow> d) of
        (pk, sr) \<Rightarrow>
          AList.update (rpm_arch rpm)
            (if is_source then (pk, sr @ [item rpm]) else (pk @ [item rpm], sr)) acc)"

fun gen_loop ::
  "(string \<Rightarrow> bool) \<Rightarrow> ResolvedRPM list \<Rightarrow> (string \<times> rpm_entry list \<times> rpm_entry list) list
     \<Rightarrow> error + (string \<times> rpm_entry list \<times> rpm_entry list) list" where
  "gen_loop netloc_valid [] acc = Inr acc"
| "gen_loop netloc_valid (rpm # rest) acc =
     (case filename netloc_valid (rpm_url rpm) of
        Inl e \<Rightarrow> Inl e
      | Inr fn \<Rightarrow> gen_loop netloc_valid rest (add_item (endswith fn ''.src.rpm'') rpm acc))"

definition gen_lockfile :: "(string \<Rightarrow> bool) \<Rightarrow> ResolvedRPM list \<Rightarrow> error + lockfile" where
  "gen_lockfile netloc_valid rpms =
     (case gen_loop netloc_valid (sort rpms) [] of
        Inl e \<Rightarrow> Inl e
      | Inr acc \<Rightarrow>
          Inr \<lparr>lockfileVersion = 1, lockfileVendor = ''redhat'',
               arches = map (\<lambda>(a, pk, sr). \<lparr>arch = a, packages = pk, source = sr\<rparr>) acc\<rparr>)"

text \<open>
  What the loop of \<open>gen_lockfile\<close> is expected to collect for an architecture from the
  list it runs over: the items of the triples of that architecture whose filename does
  not end, or ends, with \<open>.src.rpm\<close>, in the order of the list.
\<close>

definition is_source_url :: "(string \<Rightarrow> bool) \<Rightarrow> string \<Rightarrow> bool" where
  "is_source_url netloc_valid u =
     (case filename netloc_valid u of Inl e \<Rightarrow> False | Inr fn \<Rightarrow> endswith fn ''.src.rpm'')"

definition packages_of :: "(string \<Rightarrow> bool) \<Rightarrow> string \<Rightarrow> ResolvedRPM list \<Rightarrow> rpm_entry list" where
  "packages_of nv a rpms =
     map item (filter (\<lambda>rpm. rpm_arch rpm = a \<and> \<not> is_source_url nv (rpm_url rpm)) rpms)"

definition source_of :: "(string \<Rightarrow> bool) \<Rightarrow> string \<Rightarrow> ResolvedRPM list \<Rightarrow> rpm_entry list" where
  "source_of nv a rpms =
     map item (filter (\<lambda>rpm. rpm_arch rpm = a \<and> is_source_url nv (rpm_url rpm)) rpms)"

definition lookup_default ::
  "(string \<times> rpm_entry list \<times> rpm_entry list) list \<Rightarrow> string \<Rightarrow> rpm_entry list \<times> rpm_entry list" where
  "lookup_default acc a = (case map_of acc a of None \<Rightarrow> ([], []) | Some d \<Rightarrow> d)"

text \<open>
  \<^verbatim>\<open>parse_rpms\<close> reads one triple from each line of the input file, and \<^verbatim>\<open>main\<close>
  passes the triples to \<open>gen_lockfile\<close>, which sorts them before it uses any.
\<close>

fun parse_rpms :: "string list \<Rightarrow> error + ResolvedRPM list" where
  "parse_rpms [] = Inr []"
| "parse_rpms (line # rest) =
     (case split_ws line of
        [a, r, u] \<Rightarrow> (case parse_rpms rest of Inl e \<Rightarrow> Inl e | Inr rpms \<Rightarrow> Inr ((a, r, u) # rpms))
      | _ \<Rightarrow> Inl UnpackError)"

definition lockfile_from_urls_main :: "(string \<Rightarrow> bool) \<Rightarrow> string list \<Rightarrow> error + lockfile" where
  "lockfile_from_urls_main nv input_file =
     (case parse_rpms input_file of Inl e \<Rightarrow> Inl e | Inr rpms \<Rightarrow> gen_lockfile nv rpms)"

subsection \<open>\<^verbatim>\<open>enhance_with_size_and_checksum.py\<close>: sizes and checksums\<close>

text \<open>Truth value testing of \<^verbatim>\<open>rpm.get(key)\<close>: \<^verbatim>\<open>None\<close> when the key is missing.\<close>

fun json_truthy :: "json \<Rightarrow> bool" where
  "json_truthy JNull = False"
| "json_truthy (JBool b) = b"
| "json_truthy (JInt i) = (i \<noteq> 0)"
| "json_truthy (JStr s) = (s \<noteq> [])"
| "json_truthy (JArr xs) = (xs \<noteq> [])"
| "json_truthy (JObj kvs) = (kvs \<noteq> [])"

definition truthy :: "json option \<Rightarrow> bool" where
  "truthy v = (case v of None \<Rightarrow> False | Some j \<Rightarrow> json_truthy j)"

text \<open>
  The files on disk are two parameters: \<open>st_size\<close> is \<^verbatim>\<open>path.stat().st_size\<close> and
  \<open>hexdigest\<close> the SHA-256 digest of the file's content in hexadecimal, each an error
  where the call raises (no such file, a directory, no permission).

  One round of the inner loop: the path of the downloaded file, then the two \<^verbatim>\<open>if\<close>
  statements, which set \<open>size\<close> and \<open>checksum\<close> where \<^verbatim>\<open>not rpm.get(...)\<close> holds.
  A value for \<open>url\<close> or \<open>repoid\<close> that is no string makes \<^verbatim>\<open>urlsplit\<close> or the path
  join raise.
\<close>

definition downloaded_rpm :: "string \<Rightarrow> string \<Rightarrow> string \<Rightarrow> string \<Rightarrow> PurePath" where
  "downloaded_rpm cachi2_output_dir a r fn =
     Path (posix_join (posix_join (posix_join
       (posix_join cachi2_output_dir ''deps/rpm'') a) r) fn)"

definition fill_size :: "(PurePath \<Rightarrow> error + int) \<Rightarrow> PurePath \<Rightarrow> rpm_entry \<Rightarrow> error + rpm_entry" where
  "fill_size st_size p rpm =
     (if \<not> truthy (map_of rpm ''size'')
      then (case st_size p of
              Inl e \<Rightarrow> Inl e
            | Inr n \<Rightarrow> Inr (AList.update ''size'' (JInt n) rpm))
      else Inr rpm)"

definition fill_checksum ::
  "(PurePath \<Rightarrow> error + string) \<Rightarrow> PurePath \<Rightarrow> rpm_entry \<Rightarrow> error + rpm_entry" where
  "fill_checksum hexdigest p rpm =
     (if \<not> truthy (map_of rpm ''checksum'')
      then (case hexdigest p of
              Inl e \<Rightarrow> Inl e
            | Inr h \<Rightarrow> Inr (AList.update ''checksum'' (JStr (''sha256:'' @ h)) rpm))
      else Inr rpm)"

definition enrich_rpm ::
  "(string \<Rightarrow> bool) \<Rightarrow> (PurePath \<Rightarrow> error + int) \<Rightarrow> (PurePath \<Rightarrow> error + string)
     \<Rightarrow> string \<Rightarrow> string \<Rightarrow> rpm_entry \<Rightarrow> error + rpm_entry" where
  "enrich_rpm netloc_valid st_size hexdigest cachi2_output_dir a rpm =
     (case map_of rpm ''repoid'' of
        None \<Rightarrow> Inl (KeyError ''repoid'')
      | Some rv \<Rightarrow>
     (case map_of rpm ''url'' of
        None \<Rightarrow> Inl (KeyError ''url'')
      | Some (JStr u) \<Rightarrow>
         (case filename netloc_valid u of
            Inl e \<Rightarrow> Inl e
          | Inr fn \<Rightarrow>
             (case rv of
                JStr r \<Rightarrow>
                  (case fill_size st_size (downloaded_rpm cachi2_output_dir a r fn) rpm of
                     Inl e \<Rightarrow> Inl e
                   | Inr rpm1 \<Rightarrow>
                       fill_checksum hexdigest (downloaded_rpm cachi2_output_dir a r fn) rpm1)
              | _ \<Rightarrow> Inl TypeError))
      | Some _ \<Rightarrow> Inl TypeError))"

fun enrich_rpms ::
  "(string \<Rightarrow> bool) \<Rightarrow> (PurePath \<Rightarrow> error + int) \<Rightarrow> (PurePath \<Rightarrow> error + string)
     \<Rightarrow> string \<Rightarrow> string \<Rightarrow> rpm_entry list \<Rightarrow> error + rpm_entry list" where
  "enrich_rpms nv st_size hexdigest dir a [] = Inr []"
| "enrich_rpms nv st_size hexdigest dir a (rpm # rest) =
     (case enrich_rpm nv st_size hexdigest dir a rpm of
        Inl e \<Rightarrow> Inl e
      | Inr rpm' \<Rightarrow>
          (case enrich_rpms nv st_size hexdigest dir a rest of
             Inl e \<Rightarrow> Inl e
           | Inr rest' \<Rightarrow> Inr (rpm' # rest')))"

text \<open>
  The loop runs over \<^verbatim>\<open>arch_data["packages"] + arch_data["source"]\<close>, a new list of the
  same dictionaries, so the entries of both lists are updated where they stand.
\<close>

definition enrich_arch ::
  "(string \<Rightarrow> bool) \<Rightarrow> (PurePath \<Rightarrow> error + int) \<Rightarrow> (PurePath \<Rightarrow> error + string)
     \<Rightarrow> string \<Rightarrow> arch_data \<Rightarrow> error + arch_data" where
  "enrich_arch nv st_size hexdigest dir ad =
     (case enrich_rpms nv st_size hexdigest dir (arch ad) (packages ad @ source ad) of
        Inl e \<Rightarrow> Inl e
      | Inr rpms \<Rightarrow>
          Inr (ad\<lparr>packages := take (length (packages ad)) rpms,
                  source := drop (length (packages ad)) rpms\<rparr>))"

fun enrich_arches ::
  "(string \<Rightarrow> bool) \<Rightarrow> (PurePath \<Rightarrow> error + int) \<Rightarrow> (PurePath \<Rightarrow> error + string)
     \<Rightarrow> string \<Rightarrow> arch_data list \<Rightarrow> error + arch_data list" where
  "enrich_arches nv st_size hexdigest dir [] = Inr []"
| "enrich_arches nv st_size hexdigest dir (ad # rest) =
     (case enrich_arch nv st_size hexdigest dir ad of
        Inl e \<Rightarrow> Inl e
      | Inr ad' \<Rightarrow>
          (case enrich_arches nv st_size hexdigest dir rest of
             Inl e \<Rightarrow> Inl e
           | Inr rest' \<Rightarrow> Inr (ad' # rest')))"

text \<open>
  \<^verbatim>\<open>main\<close> of the script, from the parsed lockfile to the document written back; when
  it raises, nothing is written.
\<close>

definition enhance_with_size_and_checksum ::
  "(string \<Rightarrow> bool) \<Rightarrow> (PurePath \<Rightarrow> error + int) \<Rightarrow> (PurePath \<Rightarrow> error + string)
     \<Rightarrow> string \<Rightarrow> lockfile \<Rightarrow> error + lockfile" where
  "enhance_with_size_and_checksum nv st_size hexdigest cachi2_output_dir doc =
     (case enrich_arches nv st_size hexdigest cachi2_output_dir (arches doc) of
        Inl e \<Rightarrow> Inl e
      | Inr as \<Rightarrow> Inr (doc\<lparr>arches := as\<rparr>))"

text \<open>
  Notions for stating what enrichment keeps. An entry is populated when its \<open>size\<close> and
  its \<open>checksum\<close> are both there and true in Python's sense (not \<^verbatim>\<open>null\<close>, zero or
  empty); it is readable when its \<open>repoid\<close> and \<open>url\<close> are strings and the URL
  splits. \<open>kept_entry\<close> relates an entry to a later state of it in which, at most, a
  \<open>size\<close> or a \<open>checksum\<close> that was missing or false has been set.
\<close>

definition populated :: "rpm_entry \<Rightarrow> bool" where
  "populated rpm = (truthy (map_of rpm ''size'') \<and> truthy (map_of rpm ''checksum''))"

definition readable :: "(string \<Rightarrow> bool) \<Rightarrow> rpm_entry \<Rightarrow> bool" where
  "readable nv rpm =
     (case map_of rpm ''repoid'' of
        Some (JStr r) \<Rightarrow>
          (case map_of rpm ''url'' of
             Some (JStr u) \<Rightarrow> (case filename nv u of Inl e \<Rightarrow> False | Inr fn \<Rightarrow> True)
           | _ \<Rightarrow> False)
      | _ \<Rightarrow> False)"

definition kept_entry :: "rpm_entry \<Rightarrow> rpm_entry \<Rightarrow> bool" where
  "kept_entry rpm rpm' =
     (\<forall>k. (k \<noteq> ''size'' \<and> k \<noteq> ''checksum'') \<or> truthy (map_of rpm k)
          \<longrightarrow> map_of rpm' k = map_of rpm k)"

definition kept_arch :: "arch_data \<Rightarrow> arch_data \<Rightarrow> bool" where
  "kept_arch ad ad' =
     (arch ad' = arch ad
      \<and> list_all2 kept_entry (packages ad) (packages ad')
      \<and> list_all2 kept_entry (source ad) (source ad'))"

definition entries_of :: "lockfile \<Rightarrow> rpm_entry list" where
  "entries_of doc = concat (map (\<lambda>ad. packages ad @ source ad) (arches doc))"

subsection \<open>Concrete inputs\<close>

text \<open>A library that accepts every netloc it is asked about, for concrete runs.\<close>

definition any_netloc :: "string \<Rightarrow> bool" where
  "any_netloc loc = True"

text \<open>
  A repository file for concrete runs: its only section, \<open>extras\<close>, has a name and no
  \<open>baseurl\<close>.
\<close>

definition extras_attrs :: section_attrs where
  "extras_attrs = [''name'' \<mapsto> Inr ''CentOS Stream - Extras'']"

definition extras_repo_file :: dir_entry where
  "extras_repo_file =
     \<lparr>entry_name = ''extras.repo'', is_file = True,
       parsed_items = Inr [(''DEFAULT'', Map.empty), (''extras'', extras_attrs)]\<rparr>"

text \<open>
  A package manager for concrete runs: the world counts the calls; a query for source
  packages fails, with the exit status 1, after printing one URL; any other query prints
  the URL of one package and succeeds.
\<close>

definition example_dnf :: "nat \<Rightarrow> string list \<Rightarrow> (error + completed_process) \<times> nat" where
  "example_dnf w cmd =
     (if ''--source'' \<in> set cmd
      then (Inr \<lparr>returncode = 1,
                  stdout = ''https://example/source/bash-5.1.src.rpm'' @ [CHR 0x0A],
                  stderr = ''Error: No package zlib-src available.''\<rparr>, Suc w)
      else (Inr \<lparr>returncode = 0,
                  stdout = ''https://example/repo/x86_64/bash-5.1.rpm'' @ [CHR 0x0A],
                  stderr = []\<rparr>, Suc w))"

text \<open>
  A directory for concrete runs: it holds one downloaded file, of 1024 bytes, at
  \<open>cachi2-output/deps/rpm/x86_64/baseos/bash-5.1.rpm\<close>.
\<close>

definition example_st_size :: "PurePath \<Rightarrow> error + int" where
  "example_st_size p =
     (if p = Path ''cachi2-output/deps/rpm/x86_64/baseos/bash-5.1.rpm'' then Inr 1024
      else Inl (OSError ''No such file or directory''))"

definition example_hexdigest :: "PurePath \<Rightarrow> error + string" where
  "example_hexdigest p =
     (if p = Path ''cachi2-output/deps/rpm/x86_64/baseos/bash-5.1.rpm''
      then Inr ''9f86d081884c7d659a2feaa0c55ad015a3bf4f1b2b0b822cd15d6c15b0f00a08''
      else Inl (OSError ''No such file or directory''))"

section \<open>Properties\<close>

subsection \<open>Splitting URLs\<close>

lemma urlsplit_Inl: "urlsplit nv s = Inl e \<Longrightarrow> e = InvalidURL s"
  by (auto simp: urlsplit_def Let_def split: if_splits)

lemma set_split_scheme: "set (snd (split_scheme s)) \<subseteq> set s"
  by (auto simp: split_scheme_def Let_def dest: in_set_dropD)

lemma set_splitnetloc: "set (fst (splitnetloc s)) \<subseteq> set s"
  by (auto simp: splitnetloc_def dest: set_takeWhileD in_set_dropD)

lemma netloc_split_parts:
  "netloc (split_parts s) =
     (if take 2 (snd (split_scheme (filter (\<lambda>c. c \<notin> {CHR 0x09, CHR 0x0D, CHR 0x0A})
            (dropWhile (\<lambda>c. of_char c \<le> (32::nat)) s)))) = ''//''
      then fst (splitnetloc (snd (split_scheme (filter (\<lambda>c. c \<notin> {CHR 0x09, CHR 0x0D, CHR 0x0A})
            (dropWhile (\<lambda>c. of_char c \<le> (32::nat)) s)))))
      else [])"
  by (simp add: split_parts_def Let_def split: prod.splits)

lemma set_netloc_split_parts: "set (netloc (split_parts s)) \<subseteq> set s"
proof -
  define url2 where "url2 = filter (\<lambda>c. c \<notin> {CHR 0x09, CHR 0x0D, CHR 0x0A})
            (dropWhile (\<lambda>c. of_char c \<le> (32::nat)) s)"
  have "set url2 \<subseteq> set s"
    by (auto simp: url2_def dest: set_dropWhileD)
  moreover have "set (snd (split_scheme url2)) \<subseteq> set url2"
    by (rule set_split_scheme)
  moreover have "set (fst (splitnetloc (snd (split_scheme url2)))) \<subseteq> set (snd (split_scheme url2))"
    by (rule set_splitnetloc)
  ultimately have "set (fst (splitnetloc (snd (split_scheme url2)))) \<subseteq> set s"
    by blast
  then show ?thesis
    unfolding netloc_split_parts url2_def [symmetric] by auto
qed

text \<open>
  A string of ASCII characters without square brackets always splits, whatever the
  library's checks of unusual netlocs are.
\<close>

lemma urlsplit_plain:
  assumes "isascii s" and "CHR ''['' \<notin> set s" and "CHR '']'' \<notin> set s"
  shows "urlsplit nv s = Inr (split_parts s)"
proof -
  from set_netloc_split_parts [of s] assms
  have "CHR ''['' \<notin> set (netloc (split_parts s))" "CHR '']'' \<notin> set (netloc (split_parts s))"
    "isascii (netloc (split_parts s))"
    by (auto simp: isascii_def list_all_iff)
  then show ?thesis by (simp add: urlsplit_def Let_def)
qed

subsection \<open>Path containment\<close>

lemma in_parents_iff:
  "other \<in> set (parents self) \<longleftrightarrow>
     (\<exists>n < length (tail self). other = \<lparr>root = root self, tail = take n (tail self)\<rparr>)"
  by (auto simp: parents_def)

text \<open>
  \<open>is_relative_to\<close> is containment by whole components: the roots are equal and the
  components of \<open>other\<close> are the first components of \<open>self\<close>.
\<close>

lemma is_relative_to_iff:
  "is_relative_to self other \<longleftrightarrow> root other = root self \<and> prefix (tail other) (tail self)"
proof
  assume "is_relative_to self other"
  then show "root other = root self \<and> prefix (tail other) (tail self)"
    by (auto simp: is_relative_to_def in_parents_iff take_is_prefix)
next
  assume h: "root other = root self \<and> prefix (tail other) (tail self)"
  then obtain zs where zs: "tail self = tail other @ zs"
    by (auto simp: prefix_def)
  show "is_relative_to self other"
  proof (cases "zs = []")
    case True
    with h zs have "other = self" by simp
    then show ?thesis by (simp add: is_relative_to_def)
  next
    case False
    with zs have "length (tail other) < length (tail self)" by simp
    moreover from zs h
    have "other = \<lparr>root = root self, tail = take (length (tail other)) (tail self)\<rparr>"
      by simp
    ultimately show ?thesis
      unfolding is_relative_to_def in_parents_iff by blast
  qed
qed

lemma Path_empty: "Path [] = \<lparr>root = [], tail = []\<rparr>"
  by (simp add: Path_def)

lemma root_Path_absolute: "startswith p ''/'' \<Longrightarrow> root (Path p) \<noteq> []"
  by (cases p) (auto simp: Path_def splitroot_def startswith_def split: prod.splits if_splits)

subsection \<open>The loop of \<open>map_url_to_repoid\<close>\<close>

lemma first_match_skip:
  "\<forall>e \<in> set pre. \<not> url_matches u (fst e) \<Longrightarrow>
     first_match u (pre @ rest) = first_match u rest"
  by (induction pre) auto

lemma first_match_Inl_iff:
  "first_match u m = Inl e \<longleftrightarrow>
     e = NoMatchingBaseurl \<and> (\<forall>x \<in> set m. \<not> url_matches u (fst x))"
  by (induction m) (auto split: if_splits)

lemma first_match_Inr_intro:
  "url_matches u b \<Longrightarrow> \<forall>e \<in> set pre. \<not> url_matches u (fst e) \<Longrightarrow>
     first_match u (pre @ (b, r) # post) = Inr r"
  by (simp add: first_match_skip)

lemma first_match_Inr_elim:
  "first_match u m = Inr r \<Longrightarrow>
     \<exists>pre b post. m = pre @ (b, r) # post \<and> url_matches u b
        \<and> (\<forall>e \<in> set pre. \<not> url_matches u (fst e))"
proof (induction m)
  case Nil
  then show ?case by simp
next
  case (Cons x m)
  obtain b0 r0 where x: "x = (b0, r0)" by (cases x)
  show ?case
  proof (cases "url_matches u b0")
    case True
    with Cons.prems x have "r0 = r" by simp
    with x True have "x # m = [] @ (b0, r) # m \<and> url_matches u b0
        \<and> (\<forall>e \<in> set []. \<not> url_matches u (fst e))" by simp
    then show ?thesis by (intro exI)
  next
    case False
    with Cons.prems x have "first_match u m = Inr r" by simp
    from Cons.IH [OF this] obtain pre b post where
      p: "m = pre @ (b, r) # post" "url_matches u b"
         "\<forall>e \<in> set pre. \<not> url_matches u (fst e)" by blast
    with x False have "x # m = (x # pre) @ (b, r) # post \<and> url_matches u b
        \<and> (\<forall>e \<in> set (x # pre). \<not> url_matches u (fst e))" by simp
    then show ?thesis by (intro exI)
  qed
qed

text \<open>
  Claim C1 (as amended). A URL matches a base URL exactly when the schemes are equal, the
  network locations are equal (the whole \<open>netloc\<close> components as written: user
  information, host and port) and the URL's path is equal to or nested under the base
  URL's path by whole path components (equal roots, and the base path's components are
  the first components of the URL's path). URLs that match have the same host; URLs with
  the same host need not match. Consequently a URL that matches a base URL of the mapping
  is attributed to that base URL's repository identifier whenever no base URL registered
  earlier in the mapping matches it as well.
\<close>

theorem url_attributed_to_first_matching_baseurl:
  "(url_matches u b \<longleftrightarrow>
      scheme u = scheme b \<and> netloc u = netloc b
      \<and> root (Path (path u)) = root (Path (path b))
      \<and> prefix (tail (Path (path b))) (tail (Path (path u))))
   \<and> (url_matches u b \<longrightarrow> hostinfo u = hostinfo b \<and> hostname u = hostname b)
   \<and> (split_if_str nv pu = Inr u \<and> url_matches u b
        \<and> (\<forall>e \<in> set pre. \<not> url_matches u (fst e))
      \<longrightarrow> map_url_to_repoid nv pu (pre @ (b, r) # post) = Inr r)"
proof (intro conjI impI)
  show "url_matches u b \<longleftrightarrow>
      scheme u = scheme b \<and> netloc u = netloc b
      \<and> root (Path (path u)) = root (Path (path b))
      \<and> prefix (tail (Path (path b))) (tail (Path (path u)))"
    by (auto simp: url_matches_def is_relative_to_iff)
next
  assume "url_matches u b"
  then have n: "netloc u = netloc b" by (simp add: url_matches_def)
  then show "hostinfo u = hostinfo b" by (simp add: hostinfo_def)
  with n show "hostname u = hostname b" by (simp add: hostname_def)
next
  assume "split_if_str nv pu = Inr u \<and> url_matches u b
        \<and> (\<forall>e \<in> set pre. \<not> url_matches u (fst e))"
  then show "map_url_to_repoid nv pu (pre @ (b, r) # post) = Inr r"
    by (simp add: map_url_to_repoid_def first_match_Inr_intro)
qed

theorem url_attributed_to_first_matching_baseurl_witness:
  "split_if_str any_netloc (Inl ''https://example/baseos/x86_64/os/Packages/bash-5.1.rpm'')
     = Inr \<lparr>scheme = ''https'', netloc = ''example'',
            path = ''/baseos/x86_64/os/Packages/bash-5.1.rpm'', query = [], fragment = []\<rparr>
   \<and> url_matches
       \<lparr>scheme = ''https'', netloc = ''example'',
         path = ''/baseos/x86_64/os/Packages/bash-5.1.rpm'', query = [], fragment = []\<rparr>
       \<lparr>scheme = ''https'', netloc = ''example'', path = ''/baseos/x86_64/os/'',
         query = [], fragment = []\<rparr>
   \<and> \<not> url_matches
       \<lparr>scheme = ''https'', netloc = ''example'',
         path = ''/baseos/x86_64/os/Packages/bash-5.1.rpm'', query = [], fragment = []\<rparr>
       \<lparr>scheme = ''https'', netloc = ''example'', path = ''/appstream/x86_64/os/'',
         query = [], fragment = []\<rparr>
   \<and> map_url_to_repoid any_netloc
       (Inl ''https://example/baseos/x86_64/os/Packages/bash-5.1.rpm'')
       [(\<lparr>scheme = ''https'', netloc = ''example'', path = ''/appstream/x86_64/os/'',
           query = [], fragment = []\<rparr>, ''appstream''),
        (\<lparr>scheme = ''https'', netloc = ''example'', path = ''/baseos/x86_64/os/'',
           query = [], fragment = []\<rparr>, ''baseos'')]
     = Inr ''baseos''"
proof -
  let ?u = "\<lparr>scheme = ''https'', netloc = ''example'',
         path = ''/baseos/x86_64/os/Packages/bash-5.1.rpm'', query = [], fragment = []\<rparr>"
  let ?b = "\<lparr>scheme = ''https'', netloc = ''example'', path = ''/baseos/x86_64/os/'',
         query = [], fragment = []\<rparr>"
  let ?b1 = "\<lparr>scheme = ''https'', netloc = ''example'', path = ''/appstream/x86_64/os/'',
         query = [], fragment = []\<rparr>"
  have s: "split_if_str any_netloc
      (Inl ''https://example/baseos/x86_64/os/Packages/bash-5.1.rpm'') = Inr ?u"
    by code_simp
  have m: "url_matches ?u ?b" by code_simp
  have n: "\<not> url_matches ?u ?b1" by code_simp
  from n have n': "\<forall>e \<in> set [(?b1, ''appstream'')]. \<not> url_matches ?u (fst e)" by simp
  have "map_url_to_repoid any_netloc
       (Inl ''https://example/baseos/x86_64/os/Packages/bash-5.1.rpm'')
       ([(?b1, ''appstream'')] @ (?b, ''baseos'') # []) = Inr ''baseos''"
    using url_attributed_to_first_matching_baseurl
         [of ?u ?b any_netloc "Inl ''https://example/baseos/x86_64/os/Packages/bash-5.1.rpm''"
             "[(?b1, ''appstream'')]" "''baseos''" "[]"] s m n'
    by blast
  then have "map_url_to_repoid any_netloc
       (Inl ''https://example/baseos/x86_64/os/Packages/bash-5.1.rpm'')
       [(?b1, ''appstream''), (?b, ''baseos'')] = Inr ''baseos''"
    by simp
  with s m n show ?thesis by blast
qed

text \<open>
  The claim as stated fails in both parts. The first URL below has the scheme and the
  host of the base URL of \<open>baseos\<close> and its path is nested under the base URL's path,
  yet it does not match, because its netloc also names the port: \<open>map_url_to_repoid\<close>
  raises. The second URL is nested under the base URL of \<open>baseos\<close>, with the same scheme
  and netloc, and is attributed to \<open>everything\<close>, whose base URL matches too and was
  registered first.
\<close>

theorem same_host_unmatched_and_earlier_baseurl_counterexample:
  "urlsplit any_netloc ''https://example:443/repo/x86_64/bash-5.1.rpm''
     = Inr \<lparr>scheme = ''https'', netloc = ''example:443'',
            path = ''/repo/x86_64/bash-5.1.rpm'', query = [], fragment = []\<rparr>
   \<and> scheme \<lparr>scheme = ''https'', netloc = ''example:443'',
            path = ''/repo/x86_64/bash-5.1.rpm'', query = [], fragment = []\<rparr>
     = scheme \<lparr>scheme = ''https'', netloc = ''example'', path = ''/repo/x86_64/'',
            query = [], fragment = []\<rparr>
   \<and> hostname \<lparr>scheme = ''https'', netloc = ''example:443'',
            path = ''/repo/x86_64/bash-5.1.rpm'', query = [], fragment = []\<rparr>
     = Some ''example''
   \<and> hostname \<lparr>scheme = ''https'', netloc = ''example'', path = ''/repo/x86_64/'',
            query = [], fragment = []\<rparr>
     = Some ''example''
   \<and> is_relative_to (Path ''/repo/x86_64/bash-5.1.rpm'') (Path ''/repo/x86_64/'')
   \<and> \<not> url_matches
       \<lparr>scheme = ''https'', netloc = ''example:443'',
         path = ''/repo/x86_64/bash-5.1.rpm'', query = [], fragment = []\<rparr>
       \<lparr>scheme = ''https'', netloc = ''example'', path = ''/repo/x86_64/'',
         query = [], fragment = []\<rparr>
   \<and> map_url_to_repoid any_netloc (Inl ''https://example:443/repo/x86_64/bash-5.1.rpm'')
       [(\<lparr>scheme = ''https'', netloc = ''example'', path = ''/repo/x86_64/'',
           query = [], fragment = []\<rparr>, ''baseos'')]
     = Inl NoMatchingBaseurl
   \<and> url_matches
       \<lparr>scheme = ''https'', netloc = ''mirror'',
         path = ''/pub/baseos/Packages/bash-5.1.rpm'', query = [], fragment = []\<rparr>
       \<lparr>scheme = ''https'', netloc = ''mirror'', path = ''/pub/baseos'',
         query = [], fragment = []\<rparr>
   \<and> map_url_to_repoid any_netloc
       (Inr \<lparr>scheme = ''https'', netloc = ''mirror'',
         path = ''/pub/baseos/Packages/bash-5.1.rpm'', query = [], fragment = []\<rparr>)
       [(\<lparr>scheme = ''https'', netloc = ''mirror'', path = ''/pub'',
           query = [], fragment = []\<rparr>, ''everything''),
        (\<lparr>scheme = ''https'', netloc = ''mirror'', path = ''/pub/baseos'',
           query = [], fragment = []\<rparr>, ''baseos'')]
     = Inr ''everything''"
  by code_simp

text \<open>
  The first scenario of the specification: the repository \<open>baseos\<close> has the base URL
  template \<open>https://example/repo/$basearch/\<close>; for the architecture \<open>x86_64\<close> the URL
  of \<open>bash\<close> is attributed to \<open>baseos\<close>.
\<close>

lemma scenario_reattribution:
  "map_expanded_baseurls any_netloc
     [(''baseos'', [''baseurl'' \<mapsto> Inr ''https://example/repo/$basearch/''])] [''x86_64'']
   = Inr [(\<lparr>scheme = ''https'', netloc = ''example'', path = ''/repo/x86_64/'',
             query = [], fragment = []\<rparr>, ''baseos'')]
   \<and> map_url_to_repoid any_netloc (Inl ''https://example/repo/x86_64/bash-5.1.rpm'')
       [(\<lparr>scheme = ''https'', netloc = ''example'', path = ''/repo/x86_64/'',
             query = [], fragment = []\<rparr>, ''baseos'')]
   = Inr ''baseos''"
  by code_simp

text \<open>
  Claim C2 (as amended). Whatever the lengths of the matching path prefixes,
  \<open>map_url_to_repoid\<close> returns the repository identifier of the first base URL, in the
  insertion order of the mapping, that matches the URL: it returns \<open>r\<close> exactly when the
  mapping splits into entries that do not match, an entry for \<open>r\<close> that matches, and the
  rest.
\<close>

theorem map_url_to_repoid_returns_first_registered:
  "map_url_to_repoid nv (Inr u) m = Inr r \<longleftrightarrow>
     (\<exists>pre b post. m = pre @ (b, r) # post \<and> url_matches u b
        \<and> (\<forall>e \<in> set pre. \<not> url_matches u (fst e)))"
proof
  assume "map_url_to_repoid nv (Inr u) m = Inr r"
  then have "first_match u m = Inr r"
    by (simp add: map_url_to_repoid_def split_if_str_def)
  then show "\<exists>pre b post. m = pre @ (b, r) # post \<and> url_matches u b
        \<and> (\<forall>e \<in> set pre. \<not> url_matches u (fst e))"
    by (rule first_match_Inr_elim)
next
  assume "\<exists>pre b post. m = pre @ (b, r) # post \<and> url_matches u b
        \<and> (\<forall>e \<in> set pre. \<not> url_matches u (fst e))"
  then obtain pre b post where "m = pre @ (b, r) # post" "url_matches u b"
         "\<forall>e \<in> set pre. \<not> url_matches u (fst e)" by blast
  then show "map_url_to_repoid nv (Inr u) m = Inr r"
    by (simp add: map_url_to_repoid_def split_if_str_def first_match_Inr_intro)
qed

theorem map_url_to_repoid_returns_first_registered_witness:
  "\<exists>pre b post.
     [(\<lparr>scheme = ''https'', netloc = ''example'', path = ''/repo/'',
         query = [], fragment = []\<rparr>, ''baseos''),
      (\<lparr>scheme = ''https'', netloc = ''example'', path = ''/repo/extras/'',
         query = [], fragment = []\<rparr>, ''extras'')] = pre @ (b, ''baseos'') # post
     \<and> url_matches
         \<lparr>scheme = ''https'', netloc = ''example'',
           path = ''/repo/extras/x86_64/foo-1.0.rpm'', query = [], fragment = []\<rparr> b
     \<and> (\<forall>e \<in> set pre. \<not> url_matches
         \<lparr>scheme = ''https'', netloc = ''example'',
           path = ''/repo/extras/x86_64/foo-1.0.rpm'', query = [], fragment = []\<rparr> (fst e))"
proof -
  have "map_url_to_repoid any_netloc
       (Inr \<lparr>scheme = ''https'', netloc = ''example'',
           path = ''/repo/extras/x86_64/foo-1.0.rpm'', query = [], fragment = []\<rparr>)
       [(\<lparr>scheme = ''https'', netloc = ''example'', path = ''/repo/'',
           query = [], fragment = []\<rparr>, ''baseos''),
        (\<lparr>scheme = ''https'', netloc = ''example'', path = ''/repo/extras/'',
           query = [], fragment = []\<rparr>, ''extras'')] = Inr ''baseos''"
    by code_simp
  then show ?thesis
    by (rule map_url_to_repoid_returns_first_registered [THEN iffD1])
qed

text \<open>
  The claim as stated fails: the URL below matches both base URLs, the one of \<open>extras\<close>
  has the longer path prefix (two components against one), and the result is \<open>baseos\<close>,
  registered first.
\<close>

theorem longest_prefix_not_returned_counterexample:
  "url_matches
     \<lparr>scheme = ''https'', netloc = ''example'',
       path = ''/repo/extras/x86_64/foo-1.0.rpm'', query = [], fragment = []\<rparr>
     \<lparr>scheme = ''https'', netloc = ''example'', path = ''/repo/'',
       query = [], fragment = []\<rparr>
   \<and> url_matches
     \<lparr>scheme = ''https'', netloc = ''example'',
       path = ''/repo/extras/x86_64/foo-1.0.rpm'', query = [], fragment = []\<rparr>
     \<lparr>scheme = ''https'', netloc = ''example'', path = ''/repo/extras/'',
       query = [], fragment = []\<rparr>
   \<and> length (tail (Path ''/repo/'')) < length (tail (Path ''/repo/extras/''))
   \<and> map_url_to_repoid any_netloc
       (Inl ''https://example/repo/extras/x86_64/foo-1.0.rpm'')
       [(\<lparr>scheme = ''https'', netloc = ''example'', path = ''/repo/'',
           query = [], fragment = []\<rparr>, ''baseos''),
        (\<lparr>scheme = ''https'', netloc = ''example'', path = ''/repo/extras/'',
           query = [], fragment = []\<rparr>, ''extras'')]
     = Inr ''baseos''"
  by code_simp

text \<open>
  Claim C8. When the URL matches no base URL of the mapping, \<open>map_url_to_repoid\<close> raises
  the no-matching-base-URL error, and only then; in particular when the URL's host differs
  from the host of every base URL (the host is any function of the network location, the
  network location itself included). A repository identifier is returned only for an
  entry of the mapping that matches: there is no default and nothing is dropped.
\<close>

theorem no_matching_baseurl_raises:
  "split_if_str nv pu = Inr u \<Longrightarrow>
     (map_url_to_repoid nv pu m = Inl NoMatchingBaseurl
        \<longleftrightarrow> (\<forall>e \<in> set m. \<not> url_matches u (fst e)))
     \<and> ((\<forall>e \<in> set m. host (netloc u) \<noteq> host (netloc (fst e)))
        \<longrightarrow> map_url_to_repoid nv pu m = Inl NoMatchingBaseurl)
     \<and> (\<forall>r. map_url_to_repoid nv pu m = Inr r
        \<longrightarrow> (\<exists>b. (b, r) \<in> set m \<and> url_matches u b))"
proof -
  assume s: "split_if_str nv pu = Inr u"
  then have eq: "map_url_to_repoid nv pu m = first_match u m"
    by (simp add: map_url_to_repoid_def)
  have a: "first_match u m = Inl NoMatchingBaseurl
        \<longleftrightarrow> (\<forall>e \<in> set m. \<not> url_matches u (fst e))"
    by (simp add: first_match_Inl_iff)
  have b: "first_match u m = Inl NoMatchingBaseurl"
    if "\<forall>e \<in> set m. host (netloc u) \<noteq> host (netloc (fst e))"
  proof -
    from that have "\<forall>e \<in> set m. \<not> url_matches u (fst e)"
      by (auto simp: url_matches_def)
    with a show ?thesis by simp
  qed
  have c: "\<exists>b. (b, r) \<in> set m \<and> url_matches u b" if "first_match u m = Inr r" for r
  proof -
    from first_match_Inr_elim [OF that] obtain pre b post
      where "m = pre @ (b, r) # post" "url_matches u b" by blast
    then have "(b, r) \<in> set m \<and> url_matches u b" by simp
    then show ?thesis by (rule exI)
  qed
  from a b c show ?thesis unfolding eq by blast
qed

theorem no_matching_baseurl_raises_witness:
  "split_if_str any_netloc (Inl ''https://elsewhere/repo/x86_64/bash-5.1.rpm'')
     = Inr \<lparr>scheme = ''https'', netloc = ''elsewhere'',
            path = ''/repo/x86_64/bash-5.1.rpm'', query = [], fragment = []\<rparr>
   \<and> map_url_to_repoid any_netloc (Inl ''https://elsewhere/repo/x86_64/bash-5.1.rpm'')
       [(\<lparr>scheme = ''https'', netloc = ''example'', path = ''/repo/x86_64/'',
           query = [], fragment = []\<rparr>, ''baseos''),
        (\<lparr>scheme = ''https'', netloc = ''example'', path = ''/extras/x86_64/'',
           query = [], fragment = []\<rparr>, ''extras'')]
     = Inl NoMatchingBaseurl"
proof -
  let ?u = "\<lparr>scheme = ''https'', netloc = ''elsewhere'',
            path = ''/repo/x86_64/bash-5.1.rpm'', query = [], fragment = []\<rparr>"
  let ?m = "[(\<lparr>scheme = ''https'', netloc = ''example'', path = ''/repo/x86_64/'',
           query = [], fragment = []\<rparr>, ''baseos''),
        (\<lparr>scheme = ''https'', netloc = ''example'', path = ''/extras/x86_64/'',
           query = [], fragment = []\<rparr>, ''extras'')]"
  have s: "split_if_str any_netloc (Inl ''https://elsewhere/repo/x86_64/bash-5.1.rpm'') = Inr ?u"
    by code_simp
  have h: "\<forall>e \<in> set ?m. id (netloc ?u) \<noteq> id (netloc (fst e))"
    by simp
  from no_matching_baseurl_raises [OF s, of ?m id] h
  have "map_url_to_repoid any_netloc (Inl ''https://elsewhere/repo/x86_64/bash-5.1.rpm'') ?m
     = Inl NoMatchingBaseurl"
    by blast
  with s show ?thesis by blast
qed

text \<open>
  In \<^verbatim>\<open>main\<close> the error ends the run: a URL that matches no base URL is not skipped.
\<close>

lemma url_loop_unmatched:
  "u \<in> set us \<Longrightarrow> map_url_to_repoid nv (Inl u) m = Inl e \<Longrightarrow>
     raised (url_loop nv m a us s) \<noteq> None"
proof (induction us arbitrary: s)
  case Nil
  then show ?case by simp
next
  case (Cons x us)
  show ?case
  proof (cases "map_url_to_repoid nv (Inl x) m")
    case (Inl e')
    then show ?thesis by simp
  next
    case (Inr r)
    with Cons.prems have "u \<in> set us" by auto
    from Cons.IH [OF this Cons.prems(2)] Inr show ?thesis by simp
  qed
qed

text \<open>
  Claim C10 (as amended). A base URL with an empty path never matches a URL whose path
  starts with a slash, whatever their schemes and network locations: the empty path is
  the relative path with no component and an absolute path is not relative to it. A URL
  with such a path is therefore refused with the no-matching-base-URL error unless a
  base URL with a non-empty path matches it.
\<close>

theorem host_only_baseurl_never_matches:
  "(path b = [] \<and> startswith (path u) ''/'' \<longrightarrow> \<not> url_matches u b)
   \<and> (split_if_str nv pu = Inr u \<and> startswith (path u) ''/''
        \<and> (\<forall>e \<in> set m. path (fst e) \<noteq> [] \<longrightarrow> \<not> url_matches u (fst e))
      \<longrightarrow> map_url_to_repoid nv pu m = Inl NoMatchingBaseurl)"
proof -
  have a: "\<not> url_matches u b'" if "path b' = []" "startswith (path u) ''/''" for b'
  proof -
    from that(2) have "root (Path (path u)) \<noteq> []" by (rule root_Path_absolute)
    with that(1) show ?thesis
      by (simp add: url_matches_def is_relative_to_iff Path_empty)
  qed
  have "map_url_to_repoid nv pu m = Inl NoMatchingBaseurl"
    if s: "split_if_str nv pu = Inr u" and p: "startswith (path u) ''/''"
      and o: "\<forall>e \<in> set m. path (fst e) \<noteq> [] \<longrightarrow> \<not> url_matches u (fst e)"
  proof -
    have "\<forall>e \<in> set m. \<not> url_matches u (fst e)"
    proof
      fix e assume e: "e \<in> set m"
      show "\<not> url_matches u (fst e)"
      proof (cases "path (fst e) = []")
        case True
        then show ?thesis using p by (rule a)
      next
        case False
        with o e show ?thesis by simp
      qed
    qed
    with s show ?thesis
      by (simp add: map_url_to_repoid_def first_match_Inl_iff)
  qed
  with a show ?thesis by blast
qed

theorem host_only_baseurl_never_matches_witness:
  "urlsplit any_netloc ''https://host''
     = Inr \<lparr>scheme = ''https'', netloc = ''host'', path = [], query = [], fragment = []\<rparr>
   \<and> split_if_str any_netloc (Inl ''https://host/Packages/bash-5.1.rpm'')
     = Inr \<lparr>scheme = ''https'', netloc = ''host'', path = ''/Packages/bash-5.1.rpm'',
            query = [], fragment = []\<rparr>
   \<and> \<not> url_matches
       \<lparr>scheme = ''https'', netloc = ''host'', path = ''/Packages/bash-5.1.rpm'',
            query = [], fragment = []\<rparr>
       \<lparr>scheme = ''https'', netloc = ''host'', path = [], query = [], fragment = []\<rparr>
   \<and> map_url_to_repoid any_netloc (Inl ''https://host/Packages/bash-5.1.rpm'')
       [(\<lparr>scheme = ''https'', netloc = ''host'', path = [], query = [], fragment = []\<rparr>,
         ''baseos'')]
     = Inl NoMatchingBaseurl"
proof -
  let ?u = "\<lparr>scheme = ''https'', netloc = ''host'', path = ''/Packages/bash-5.1.rpm'',
            query = [], fragment = []\<rparr>"
  let ?b = "\<lparr>scheme = ''https'', netloc = ''host'', path = [], query = [], fragment = []\<rparr>"
  have b: "urlsplit any_netloc ''https://host'' = Inr ?b" by code_simp
  have s: "split_if_str any_netloc (Inl ''https://host/Packages/bash-5.1.rpm'') = Inr ?u"
    by code_simp
  have p: "path ?b = [] \<and> startswith (path ?u) ''/''" by (simp add: startswith_def)
  have o: "\<forall>e \<in> set [(?b, ''baseos'')]. path (fst e) \<noteq> [] \<longrightarrow> \<not> url_matches ?u (fst e)"
    by simp
  from host_only_baseurl_never_matches
         [of ?b ?u any_netloc "Inl ''https://host/Packages/bash-5.1.rpm''" "[(?b, ''baseos'')]"]
       s p o
  have "\<not> url_matches ?u ?b
    \<and> map_url_to_repoid any_netloc (Inl ''https://host/Packages/bash-5.1.rpm'')
         [(?b, ''baseos'')] = Inl NoMatchingBaseurl"
    by blast
  with b s show ?thesis by blast
qed

text \<open>
  The last part of the claim as stated fails when another base URL matches: the package
  URL below lies on the host of the host-only base URL of \<open>baseos\<close> and raises no error,
  because the base URL of \<open>rooted\<close>, on the same host with the path \<open>/\<close>, matches it.
\<close>

theorem host_only_baseurl_other_match_counterexample:
  "path \<lparr>scheme = ''https'', netloc = ''host'', path = [], query = [], fragment = []\<rparr> = []
   \<and> map_url_to_repoid any_netloc (Inl ''https://host/Packages/bash-5.1.rpm'')
       [(\<lparr>scheme = ''https'', netloc = ''host'', path = [], query = [], fragment = []\<rparr>,
         ''baseos''),
        (\<lparr>scheme = ''https'', netloc = ''host'', path = ''/'', query = [], fragment = []\<rparr>,
         ''rooted'')]
     = Inr ''rooted''"
  by code_simp

subsection \<open>The loop of \<open>gen_lockfile\<close>\<close>

lemma add_item_update:
  "add_item s rpm acc =
     AList.update (rpm_arch rpm)
       (if s then (fst (lookup_default acc (rpm_arch rpm)),
                   snd (lookup_default acc (rpm_arch rpm)) @ [item rpm])
        else (fst (lookup_default acc (rpm_arch rpm)) @ [item rpm],
              snd (lookup_default acc (rpm_arch rpm)))) acc"
  by (simp add: add_item_def lookup_default_def split: option.splits prod.splits)

lemma lookup_default_add_item:
  "lookup_default (add_item s rpm acc) a =
     (if a = rpm_arch rpm
      then (if s then (fst (lookup_default acc a), snd (lookup_default acc a) @ [item rpm])
            else (fst (lookup_default acc a) @ [item rpm], snd (lookup_default acc a)))
      else lookup_default acc a)"
  unfolding add_item_update
  by (simp add: lookup_default_def update_conv')

lemma keys_add_item: "fst ` set (add_item s rpm acc) = insert (rpm_arch rpm) (fst ` set acc)"
  unfolding add_item_update by (simp add: dom_update)

lemma distinct_add_item:
  "distinct (map fst acc) \<Longrightarrow> distinct (map fst (add_item s rpm acc))"
  unfolding add_item_update by (rule distinct_update)

lemma gen_loop_filenames:
  "gen_loop nv xs acc = Inr acc' \<Longrightarrow> rpm \<in> set xs \<Longrightarrow> \<exists>fn. filename nv (rpm_url rpm) = Inr fn"
  by (induction xs arbitrary: acc) (auto split: sum.splits)

lemma gen_loop_total:
  "\<forall>rpm \<in> set xs. \<exists>fn. filename nv (rpm_url rpm) = Inr fn \<Longrightarrow> \<exists>acc'. gen_loop nv xs acc = Inr acc'"
  by (induction xs arbitrary: acc) (auto split: sum.splits)

lemma gen_loop_keys:
  "gen_loop nv xs acc = Inr acc' \<Longrightarrow> fst ` set acc' = fst ` set acc \<union> rpm_arch ` set xs"
  by (induction xs arbitrary: acc) (auto simp: keys_add_item split: sum.splits)

lemma gen_loop_distinct:
  "gen_loop nv xs acc = Inr acc' \<Longrightarrow> distinct (map fst acc) \<Longrightarrow> distinct (map fst acc')"
  by (induction xs arbitrary: acc) (auto simp: distinct_add_item split: sum.splits)

lemma gen_loop_lookup:
  "gen_loop nv xs acc = Inr acc' \<Longrightarrow>
     lookup_default acc' a =
       (fst (lookup_default acc a) @ packages_of nv a xs,
        snd (lookup_default acc a) @ source_of nv a xs)"
proof (induction xs arbitrary: acc)
  case Nil
  then show ?case by (simp add: packages_of_def source_of_def)
next
  case (Cons x xs)
  from Cons.prems obtain fn where fn: "filename nv (rpm_url x) = Inr fn"
    and rest: "gen_loop nv xs (add_item (endswith fn ''.src.rpm'') x acc) = Inr acc'"
    by (auto split: sum.splits)
  from fn have s: "is_source_url nv (rpm_url x) = endswith fn ''.src.rpm''"
    by (simp add: is_source_url_def)
  show ?case
    unfolding Cons.IH [OF rest] lookup_default_add_item
    by (simp add: packages_of_def source_of_def s)
qed

lemma item_eq_iff:
  "item r = item r' \<longleftrightarrow> rpm_url r = rpm_url r' \<and> rpm_repoid r = rpm_repoid r'"
  by (auto simp: item_def)

lemma rpm_eq_iff:
  "r = r' \<longleftrightarrow> rpm_arch r = rpm_arch r' \<and> rpm_repoid r = rpm_repoid r' \<and> rpm_url r = rpm_url r'"
  by (auto simp: rpm_arch_def rpm_repoid_def rpm_url_def prod_eq_iff)

lemma gen_lockfile_Inr:
  "gen_lockfile nv rpms = Inr doc \<Longrightarrow>
     \<exists>acc. gen_loop nv (sort rpms) [] = Inr acc
       \<and> lockfileVersion doc = 1 \<and> lockfileVendor doc = ''redhat''
       \<and> arches doc = map (\<lambda>(a, pk, sr). \<lparr>arch = a, packages = pk, source = sr\<rparr>) acc"
  by (auto simp: gen_lockfile_def split: sum.splits)

lemma gen_lockfile_arch_distinct:
  assumes "gen_lockfile nv rpms = Inr doc"
  shows "distinct (map arch (arches doc))"
proof -
  from gen_lockfile_Inr [OF assms] obtain acc where
    acc: "gen_loop nv (sort rpms) [] = Inr acc"
    and ar: "arches doc = map (\<lambda>(a, pk, sr). \<lparr>arch = a, packages = pk, source = sr\<rparr>) acc"
    by blast
  have "map arch (arches doc) = map fst acc"
    unfolding ar by (induction acc) auto
  moreover from gen_loop_distinct [OF acc] have "distinct (map fst acc)" by simp
  ultimately show ?thesis by simp
qed

lemma gen_lockfile_arch_entry:
  assumes "gen_lockfile nv rpms = Inr doc" and "ad \<in> set (arches doc)"
  shows "packages ad = packages_of nv (arch ad) (sort rpms)
    \<and> source ad = source_of nv (arch ad) (sort rpms)"
proof -
  from gen_lockfile_Inr [OF assms(1)] obtain acc where
    acc: "gen_loop nv (sort rpms) [] = Inr acc"
    and ar: "arches doc = map (\<lambda>(a, pk, sr). \<lparr>arch = a, packages = pk, source = sr\<rparr>) acc"
    by blast
  from assms(2) ar obtain a pk sr where
    e: "(a, pk, sr) \<in> set acc" and ad: "ad = \<lparr>arch = a, packages = pk, source = sr\<rparr>"
    by auto
  from gen_loop_distinct [OF acc] have "distinct (map fst acc)" by simp
  with e have "map_of acc a = Some (pk, sr)" by simp
  then have "lookup_default acc a = (pk, sr)" by (simp add: lookup_default_def)
  with gen_loop_lookup [OF acc, of a] ad show ?thesis
    by (simp add: lookup_default_def)
qed

lemma gen_lockfile_arch_exists:
  assumes "gen_lockfile nv rpms = Inr doc" and "rpm \<in> set rpms"
  shows "\<exists>ad \<in> set (arches doc). arch ad = rpm_arch rpm"
proof -
  from gen_lockfile_Inr [OF assms(1)] obtain acc where
    acc: "gen_loop nv (sort rpms) [] = Inr acc"
    and ar: "arches doc = map (\<lambda>(a, pk, sr). \<lparr>arch = a, packages = pk, source = sr\<rparr>) acc"
    by blast
  from gen_loop_keys [OF acc] assms(2) have "rpm_arch rpm \<in> fst ` set acc" by simp
  then obtain pk sr where "(rpm_arch rpm, pk, sr) \<in> set acc" by auto
  then have "\<lparr>arch = rpm_arch rpm, packages = pk, source = sr\<rparr> \<in> set (arches doc)"
    unfolding ar by force
  then show ?thesis by force
qed

lemma gen_lockfile_filename:
  assumes "gen_lockfile nv rpms = Inr doc" and "rpm \<in> set rpms"
  shows "\<exists>fn. filename nv (rpm_url rpm) = Inr fn"
proof -
  from gen_lockfile_Inr [OF assms(1)] obtain acc where
    acc: "gen_loop nv (sort rpms) [] = Inr acc" by blast
  from assms(2) have "rpm \<in> set (sort rpms)" by simp
  with acc show ?thesis by (rule gen_loop_filenames)
qed

text \<open>
  \<open>gen_lockfile\<close> returns a document for every list of triples whose URLs are plain in
  this sense.
\<close>

lemma gen_lockfile_plain_urls:
  assumes "\<forall>rpm \<in> set rpms. isascii (rpm_url rpm)
      \<and> CHR ''['' \<notin> set (rpm_url rpm) \<and> CHR '']'' \<notin> set (rpm_url rpm)"
  shows "\<exists>doc. gen_lockfile nv rpms = Inr doc"
proof -
  have "\<exists>fn. filename nv (rpm_url rpm) = Inr fn" if "rpm \<in> set (sort rpms)" for rpm
  proof -
    from that assms have "urlsplit nv (rpm_url rpm) = Inr (split_parts (rpm_url rpm))"
      by (simp add: urlsplit_plain)
    then show ?thesis by (simp add: filename_def)
  qed
  then have "\<forall>rpm \<in> set (sort rpms). \<exists>fn. filename nv (rpm_url rpm) = Inr fn" by blast
  from gen_loop_total [OF this, of "[]"] obtain acc where
    "gen_loop nv (sort rpms) [] = Inr acc" ..
  then show ?thesis by (simp add: gen_lockfile_def)
qed

lemma item_in_source_of:
  "rpm \<in> set xs \<Longrightarrow>
     item rpm \<in> set (source_of nv (rpm_arch rpm) xs) \<longleftrightarrow> is_source_url nv (rpm_url rpm)"
  by (auto simp: source_of_def item_eq_iff)

lemma item_in_packages_of:
  "rpm \<in> set xs \<Longrightarrow>
     item rpm \<in> set (packages_of nv (rpm_arch rpm) xs) \<longleftrightarrow> \<not> is_source_url nv (rpm_url rpm)"
  by (auto simp: packages_of_def item_eq_iff)

lemma filename_Inr_iff:
  "(\<exists>fn. filename nv s = Inr fn) \<longleftrightarrow> (\<exists>u. urlsplit nv s = Inr u)"
  by (auto simp: filename_def split: sum.splits)

lemma gen_loop_Inl:
  "gen_loop nv xs acc = Inl e \<Longrightarrow> \<exists>rpm \<in> set xs. e = InvalidURL (rpm_url rpm)"
proof (induction xs arbitrary: acc)
  case Nil
  then show ?case by simp
next
  case (Cons x xs)
  show ?case
  proof (cases "filename nv (rpm_url x)")
    case (Inl e')
    with Cons.prems have "e = e'" by simp
    moreover from Inl have "urlsplit nv (rpm_url x) = Inl e'"
      by (simp add: filename_def split: sum.splits)
    then have "e' = InvalidURL (rpm_url x)" by (rule urlsplit_Inl)
    ultimately show ?thesis by simp
  next
    case (Inr fn)
    with Cons.prems have "gen_loop nv xs (add_item (endswith fn ''.src.rpm'') x acc) = Inl e"
      by simp
    from Cons.IH [OF this] show ?thesis by auto
  qed
qed

lemma gen_lockfile_Inr_placement:
  assumes "gen_lockfile nv rpms = Inr doc" and "rpm \<in> set rpms"
  shows "\<exists>fn ad. filename nv (rpm_url rpm) = Inr fn
    \<and> ad \<in> set (arches doc) \<and> arch ad = rpm_arch rpm
    \<and> (\<forall>ad' \<in> set (arches doc). arch ad' = rpm_arch rpm \<longrightarrow> ad' = ad)
    \<and> (item rpm \<in> set (source ad) \<longleftrightarrow> endswith fn ''.src.rpm'')
    \<and> (item rpm \<in> set (packages ad) \<longleftrightarrow> \<not> endswith fn ''.src.rpm'')"
proof -
  from gen_lockfile_filename [OF assms] obtain fn where fn: "filename nv (rpm_url rpm) = Inr fn" ..
  then have s: "is_source_url nv (rpm_url rpm) = endswith fn ''.src.rpm''"
    by (simp add: is_source_url_def)
  from gen_lockfile_arch_exists [OF assms] obtain ad where
    ad: "ad \<in> set (arches doc)" "arch ad = rpm_arch rpm" by blast
  from gen_lockfile_arch_distinct [OF assms(1)] have inj: "inj_on arch (set (arches doc))"
    by (simp add: distinct_map)
  have "ad' = ad" if "ad' \<in> set (arches doc)" "arch ad' = rpm_arch rpm" for ad'
    by (rule inj_onD [OF inj]) (use that ad in simp_all)
  then have u: "\<forall>ad' \<in> set (arches doc). arch ad' = rpm_arch rpm \<longrightarrow> ad' = ad"
    by blast
  from assms(2) have m: "rpm \<in> set (sort rpms)" by simp
  from gen_lockfile_arch_entry [OF assms(1) ad(1)] ad(2)
  have "packages ad = packages_of nv (rpm_arch rpm) (sort rpms)"
    and "source ad = source_of nv (rpm_arch rpm) (sort rpms)" by simp_all
  with item_in_source_of [OF m, of nv] item_in_packages_of [OF m, of nv] s
  have "(item rpm \<in> set (source ad) \<longleftrightarrow> endswith fn ''.src.rpm'')
    \<and> (item rpm \<in> set (packages ad) \<longleftrightarrow> \<not> endswith fn ''.src.rpm'')" by simp
  with fn ad u show ?thesis by blast
qed

text \<open>
  Claim C4 (as amended). When \<open>urlsplit\<close> accepts the URL of every input triple,
  \<open>gen_lockfile\<close> returns a document, and for every input triple: the triple has a
  filename (the name of the path of its split URL), the document has exactly one entry
  for the triple's architecture, and the triple's item is in that entry's \<open>source\<close>
  list exactly when the filename ends with \<open>.src.rpm\<close>, and in its \<open>packages\<close> list
  exactly when it does not. When \<open>urlsplit\<close> rejects the URL of some input triple,
  \<open>gen_lockfile\<close> raises the \<^verbatim>\<open>ValueError\<close> of \<open>urlsplit\<close> for the URL of an input
  triple and returns no document.
\<close>

theorem gen_lockfile_partitions_by_filename:
  "((\<forall>rpm \<in> set rpms. \<exists>u. urlsplit nv (rpm_url rpm) = Inr u) \<longrightarrow>
      (\<exists>doc. gen_lockfile nv rpms = Inr doc
         \<and> (\<forall>rpm \<in> set rpms. \<exists>fn ad. filename nv (rpm_url rpm) = Inr fn
              \<and> ad \<in> set (arches doc) \<and> arch ad = rpm_arch rpm
              \<and> (\<forall>ad' \<in> set (arches doc). arch ad' = rpm_arch rpm \<longrightarrow> ad' = ad)
              \<and> (item rpm \<in> set (source ad) \<longleftrightarrow> endswith fn ''.src.rpm'')
              \<and> (item rpm \<in> set (packages ad) \<longleftrightarrow> \<not> endswith fn ''.src.rpm''))))
   \<and> ((\<exists>rpm \<in> set rpms. \<exists>e. urlsplit nv (rpm_url rpm) = Inl e) \<longrightarrow>
        (\<exists>rpm \<in> set rpms. gen_lockfile nv rpms = Inl (InvalidURL (rpm_url rpm))))"
proof (intro conjI impI)
  assume all: "\<forall>rpm \<in> set rpms. \<exists>u. urlsplit nv (rpm_url rpm) = Inr u"
  then have "\<forall>rpm \<in> set (sort rpms). \<exists>fn. filename nv (rpm_url rpm) = Inr fn"
    by (simp add: filename_Inr_iff)
  from gen_loop_total [OF this, of "[]"] obtain acc where
    "gen_loop nv (sort rpms) [] = Inr acc" ..
  then obtain doc where doc: "gen_lockfile nv rpms = Inr doc"
    by (simp add: gen_lockfile_def)
  have "\<forall>rpm \<in> set rpms. \<exists>fn ad. filename nv (rpm_url rpm) = Inr fn
              \<and> ad \<in> set (arches doc) \<and> arch ad = rpm_arch rpm
              \<and> (\<forall>ad' \<in> set (arches doc). arch ad' = rpm_arch rpm \<longrightarrow> ad' = ad)
              \<and> (item rpm \<in> set (source ad) \<longleftrightarrow> endswith fn ''.src.rpm'')
              \<and> (item rpm \<in> set (packages ad) \<longleftrightarrow> \<not> endswith fn ''.src.rpm'')"
    by (intro ballI) (rule gen_lockfile_Inr_placement [OF doc])
  with doc show "\<exists>doc. gen_lockfile nv rpms = Inr doc
         \<and> (\<forall>rpm \<in> set rpms. \<exists>fn ad. filename nv (rpm_url rpm) = Inr fn
              \<and> ad \<in> set (arches doc) \<and> arch ad = rpm_arch rpm
              \<and> (\<forall>ad' \<in> set (arches doc). arch ad' = rpm_arch rpm \<longrightarrow> ad' = ad)
              \<and> (item rpm \<in> set (source ad) \<longleftrightarrow> endswith fn ''.src.rpm'')
              \<and> (item rpm \<in> set (packages ad) \<longleftrightarrow> \<not> endswith fn ''.src.rpm''))"
    by (intro exI conjI)
next
  assume "\<exists>rpm \<in> set rpms. \<exists>e. urlsplit nv (rpm_url rpm) = Inl e"
  then obtain rpm e where rpm: "rpm \<in> set rpms" and e: "urlsplit nv (rpm_url rpm) = Inl e"
    by blast
  have "\<not> (\<exists>doc. gen_lockfile nv rpms = Inr doc)"
  proof
    assume "\<exists>doc. gen_lockfile nv rpms = Inr doc"
    then obtain doc where "gen_lockfile nv rpms = Inr doc" ..
    from gen_lockfile_filename [OF this rpm] have "\<exists>u. urlsplit nv (rpm_url rpm) = Inr u"
      by (simp add: filename_Inr_iff)
    with e show False by simp
  qed
  then obtain e' where e': "gen_loop nv (sort rpms) [] = Inl e'"
    by (auto simp: gen_lockfile_def split: sum.splits)
  from gen_loop_Inl [OF e'] obtain rpm' where
    "rpm' \<in> set rpms" "e' = InvalidURL (rpm_url rpm')" by auto
  with e' have "rpm' \<in> set rpms \<and> gen_lockfile nv rpms = Inl (InvalidURL (rpm_url rpm'))"
    by (simp add: gen_lockfile_def)
  then show "\<exists>rpm \<in> set rpms. gen_lockfile nv rpms = Inl (InvalidURL (rpm_url rpm))"
    by (intro bexI [of _ rpm']) simp_all
qed

theorem gen_lockfile_partitions_by_filename_witness:
  "gen_lockfile any_netloc
     [(''x86_64'', ''baseos'', ''https://example/repo/x86_64/bash-5.1.rpm''),
      (''aarch64'', ''baseos'', ''https://example/repo/aarch64/bash-5.1.rpm''),
      (''x86_64'', ''baseos'', ''https://example/source/bash-5.1.src.rpm'')]
   = Inr \<lparr>lockfileVersion = 1, lockfileVendor = ''redhat'',
         arches =
           [\<lparr>arch = ''aarch64'',
               packages = [[(''url'', JStr ''https://example/repo/aarch64/bash-5.1.rpm''), (''repoid'', JStr ''baseos'')]],
               source = []\<rparr>,
            \<lparr>arch = ''x86_64'',
               packages = [[(''url'', JStr ''https://example/repo/x86_64/bash-5.1.rpm''), (''repoid'', JStr ''baseos'')]],
               source = [[(''url'', JStr ''https://example/source/bash-5.1.src.rpm''), (''repoid'', JStr ''baseos'')]]\<rparr>]\<rparr>
   \<and> (\<exists>fn ad.
        filename any_netloc (rpm_url (''x86_64'', ''baseos'', ''https://example/source/bash-5.1.src.rpm'')) = Inr fn
      \<and> ad \<in> set (arches \<lparr>lockfileVersion = 1, lockfileVendor = ''redhat'',
         arches =
           [\<lparr>arch = ''aarch64'',
               packages = [[(''url'', JStr ''https://example/repo/aarch64/bash-5.1.rpm''), (''repoid'', JStr ''baseos'')]],
               source = []\<rparr>,
            \<lparr>arch = ''x86_64'',
               packages = [[(''url'', JStr ''https://example/repo/x86_64/bash-5.1.rpm''), (''repoid'', JStr ''baseos'')]],
               source = [[(''url'', JStr ''https://example/source/bash-5.1.src.rpm''), (''repoid'', JStr ''baseos'')]]\<rparr>]\<rparr>)
      \<and> arch ad = rpm_arch (''x86_64'', ''baseos'', ''https://example/source/bash-5.1.src.rpm'')
      \<and> (item (''x86_64'', ''baseos'', ''https://example/source/bash-5.1.src.rpm'') \<in> set (source ad)
           \<longleftrightarrow> endswith fn ''.src.rpm'')
      \<and> (item (''x86_64'', ''baseos'', ''https://example/source/bash-5.1.src.rpm'') \<in> set (packages ad)
           \<longleftrightarrow> \<not> endswith fn ''.src.rpm''))
   \<and> filename any_netloc (rpm_url (''x86_64'', ''baseos'', ''https://example/source/bash-5.1.src.rpm''))
       = Inr ''bash-5.1.src.rpm''
   \<and> endswith ''bash-5.1.src.rpm'' ''.src.rpm''"
proof -
  let ?rpms = "[(''x86_64'', ''baseos'', ''https://example/repo/x86_64/bash-5.1.rpm''),
      (''aarch64'', ''baseos'', ''https://example/repo/aarch64/bash-5.1.rpm''),
      (''x86_64'', ''baseos'', ''https://example/source/bash-5.1.src.rpm'')]"
  let ?src = "(''x86_64'', ''baseos'', ''https://example/source/bash-5.1.src.rpm'')"
  let ?doc = "\<lparr>lockfileVersion = 1, lockfileVendor = ''redhat'',
         arches =
           [\<lparr>arch = ''aarch64'',
               packages = [[(''url'', JStr ''https://example/repo/aarch64/bash-5.1.rpm''), (''repoid'', JStr ''baseos'')]],
               source = []\<rparr>,
            \<lparr>arch = ''x86_64'',
               packages = [[(''url'', JStr ''https://example/repo/x86_64/bash-5.1.rpm''), (''repoid'', JStr ''baseos'')]],
               source = [[(''url'', JStr ''https://example/source/bash-5.1.src.rpm''), (''repoid'', JStr ''baseos'')]]\<rparr>]\<rparr>"
  have d: "gen_lockfile any_netloc ?rpms = Inr ?doc"
    by code_simp
  have f: "filename any_netloc (rpm_url ?src) = Inr ''bash-5.1.src.rpm''"
    by code_simp
  have e: "endswith ''bash-5.1.src.rpm'' ''.src.rpm''"
    by code_simp
  have p: "\<forall>rpm \<in> set ?rpms. isascii (rpm_url rpm)
      \<and> CHR ''['' \<notin> set (rpm_url rpm) \<and> CHR '']'' \<notin> set (rpm_url rpm)"
    by code_simp
  have h: "\<forall>rpm \<in> set ?rpms. \<exists>u. urlsplit any_netloc (rpm_url rpm) = Inr u"
  proof
    fix rpm
    assume "rpm \<in> set ?rpms"
    with p have "isascii (rpm_url rpm)
        \<and> CHR ''['' \<notin> set (rpm_url rpm) \<and> CHR '']'' \<notin> set (rpm_url rpm)"
      by (rule bspec)
    then have "urlsplit any_netloc (rpm_url rpm) = Inr (split_parts (rpm_url rpm))"
      by (simp add: urlsplit_plain)
    then show "\<exists>u. urlsplit any_netloc (rpm_url rpm) = Inr u" ..
  qed
  from gen_lockfile_partitions_by_filename [THEN conjunct1, THEN mp, OF h]
  obtain doc where doc: "gen_lockfile any_netloc ?rpms = Inr doc"
    and pl: "\<forall>rpm \<in> set ?rpms. \<exists>fn ad. filename any_netloc (rpm_url rpm) = Inr fn
              \<and> ad \<in> set (arches doc) \<and> arch ad = rpm_arch rpm
              \<and> (\<forall>ad' \<in> set (arches doc). arch ad' = rpm_arch rpm \<longrightarrow> ad' = ad)
              \<and> (item rpm \<in> set (source ad) \<longleftrightarrow> endswith fn ''.src.rpm'')
              \<and> (item rpm \<in> set (packages ad) \<longleftrightarrow> \<not> endswith fn ''.src.rpm'')"
    by (elim exE conjE)
  from doc d have eq: "doc = ?doc" by simp
  have "?src \<in> set ?rpms" by simp
  with pl have "\<exists>fn ad. filename any_netloc (rpm_url ?src) = Inr fn
              \<and> ad \<in> set (arches doc) \<and> arch ad = rpm_arch ?src
              \<and> (\<forall>ad' \<in> set (arches doc). arch ad' = rpm_arch ?src \<longrightarrow> ad' = ad)
              \<and> (item ?src \<in> set (source ad) \<longleftrightarrow> endswith fn ''.src.rpm'')
              \<and> (item ?src \<in> set (packages ad) \<longleftrightarrow> \<not> endswith fn ''.src.rpm'')"
    by (rule bspec)
  then obtain fn ad where "filename any_netloc (rpm_url ?src) = Inr fn"
     "ad \<in> set (arches doc)" "arch ad = rpm_arch ?src"
     "item ?src \<in> set (source ad) \<longleftrightarrow> endswith fn ''.src.rpm''"
     "item ?src \<in> set (packages ad) \<longleftrightarrow> \<not> endswith fn ''.src.rpm''"
    by (elim exE conjE)
  then have "filename any_netloc (rpm_url ?src) = Inr fn
      \<and> ad \<in> set (arches ?doc) \<and> arch ad = rpm_arch ?src
      \<and> (item ?src \<in> set (source ad) \<longleftrightarrow> endswith fn ''.src.rpm'')
      \<and> (item ?src \<in> set (packages ad) \<longleftrightarrow> \<not> endswith fn ''.src.rpm'')"
    unfolding eq by (intro conjI)
  then have "\<exists>fn ad. filename any_netloc (rpm_url ?src) = Inr fn
      \<and> ad \<in> set (arches ?doc) \<and> arch ad = rpm_arch ?src
      \<and> (item ?src \<in> set (source ad) \<longleftrightarrow> endswith fn ''.src.rpm'')
      \<and> (item ?src \<in> set (packages ad) \<longleftrightarrow> \<not> endswith fn ''.src.rpm'')"
    by (intro exI)
  with d f e show ?thesis by (intro conjI)
qed

text \<open>
  The claim as stated fails for a triple whose URL \<open>urlsplit\<close> rejects, here for a
  square bracket that is not closed: \<open>gen_lockfile\<close> raises, and neither this triple nor
  the one before it is placed in any list.
\<close>

theorem gen_lockfile_unsplit_url_counterexample:
  "gen_lockfile any_netloc
     [(''x86_64'', ''baseos'', ''https://example/repo/x86_64/bash-5.1.rpm''),
      (''x86_64'', ''baseos'', ''https://[example/source/bash-5.1.src.rpm'')]
   = Inl (InvalidURL ''https://[example/source/bash-5.1.src.rpm'')"
  by code_simp

text \<open>
  Claim C3. \<open>gen_lockfile\<close> is a function of the collection of its input triples, not
  of their order: two lists with the same triples, each as many times, give the same
  result, document or error.
\<close>

theorem gen_lockfile_order_insensitive:
  "mset rpms = mset rpms' \<Longrightarrow> gen_lockfile nv rpms = gen_lockfile nv rpms'"
proof -
  assume "mset rpms = mset rpms'"
  then have "mset (sort rpms') = mset rpms" by simp
  then have "sort rpms = sort rpms'"
    by (rule properties_for_sort) simp
  then show ?thesis by (simp add: gen_lockfile_def)
qed

theorem gen_lockfile_order_insensitive_witness:
  "gen_lockfile any_netloc
     [(''x86_64'', ''baseos'', ''https://example/repo/x86_64/bash-5.1.rpm''),
      (''aarch64'', ''baseos'', ''https://example/repo/aarch64/bash-5.1.rpm''),
      (''x86_64'', ''baseos'', ''https://example/source/bash-5.1.src.rpm'')]
   = gen_lockfile any_netloc
     [(''x86_64'', ''baseos'', ''https://example/source/bash-5.1.src.rpm''),
      (''x86_64'', ''baseos'', ''https://example/repo/x86_64/bash-5.1.rpm''),
      (''aarch64'', ''baseos'', ''https://example/repo/aarch64/bash-5.1.rpm'')]
   \<and> gen_lockfile any_netloc
     [(''x86_64'', ''baseos'', ''https://example/source/bash-5.1.src.rpm''),
      (''x86_64'', ''baseos'', ''https://example/repo/x86_64/bash-5.1.rpm''),
      (''aarch64'', ''baseos'', ''https://example/repo/aarch64/bash-5.1.rpm'')]
   = Inr \<lparr>lockfileVersion = 1, lockfileVendor = ''redhat'',
         arches =
           [\<lparr>arch = ''aarch64'',
               packages = [[(''url'', JStr ''https://example/repo/aarch64/bash-5.1.rpm''), (''repoid'', JStr ''baseos'')]],
               source = []\<rparr>,
            \<lparr>arch = ''x86_64'',
               packages = [[(''url'', JStr ''https://example/repo/x86_64/bash-5.1.rpm''), (''repoid'', JStr ''baseos'')]],
               source = [[(''url'', JStr ''https://example/source/bash-5.1.src.rpm''), (''repoid'', JStr ''baseos'')]]\<rparr>]\<rparr>"
proof -
  have m: "mset [(''x86_64'', ''baseos'', ''https://example/repo/x86_64/bash-5.1.rpm''),
      (''aarch64'', ''baseos'', ''https://example/repo/aarch64/bash-5.1.rpm''),
      (''x86_64'', ''baseos'', ''https://example/source/bash-5.1.src.rpm'')]
    = mset [(''x86_64'', ''baseos'', ''https://example/source/bash-5.1.src.rpm''),
      (''x86_64'', ''baseos'', ''https://example/repo/x86_64/bash-5.1.rpm''),
      (''aarch64'', ''baseos'', ''https://example/repo/aarch64/bash-5.1.rpm'')]"
    by (simp add: add_mset_commute)
  have d: "gen_lockfile any_netloc
     [(''x86_64'', ''baseos'', ''https://example/source/bash-5.1.src.rpm''),
      (''x86_64'', ''baseos'', ''https://example/repo/x86_64/bash-5.1.rpm''),
      (''aarch64'', ''baseos'', ''https://example/repo/aarch64/bash-5.1.rpm'')]
   = Inr \<lparr>lockfileVersion = 1, lockfileVendor = ''redhat'',
         arches =
           [\<lparr>arch = ''aarch64'',
               packages = [[(''url'', JStr ''https://example/repo/aarch64/bash-5.1.rpm''), (''repoid'', JStr ''baseos'')]],
               source = []\<rparr>,
            \<lparr>arch = ''x86_64'',
               packages = [[(''url'', JStr ''https://example/repo/x86_64/bash-5.1.rpm''), (''repoid'', JStr ''baseos'')]],
               source = [[(''url'', JStr ''https://example/source/bash-5.1.src.rpm''), (''repoid'', JStr ''baseos'')]]\<rparr>]\<rparr>"
    by code_simp
  from gen_lockfile_order_insensitive [OF m, of any_netloc] d show ?thesis by simp
qed

lemma count_packages_source_of:
  "rpm_arch rpm = a \<Longrightarrow>
     count_list (packages_of nv a xs @ source_of nv a xs) (item rpm) = count_list xs rpm"
proof (induction xs)
  case Nil
  then show ?case by (simp add: packages_of_def source_of_def)
next
  case (Cons x xs)
  have "item x = item rpm \<longleftrightarrow> x = rpm" if "rpm_arch x = a"
    using that Cons.prems by (auto simp: item_eq_iff rpm_eq_iff)
  moreover have "x \<noteq> rpm" if "rpm_arch x \<noteq> a"
    using that Cons.prems by auto
  ultimately show ?case using Cons
    by (auto simp: packages_of_def source_of_def)
qed

text \<open>
  Claim C7 (as amended). \<open>gen_lockfile\<close> removes no duplicates: the item of a triple
  occurs in the entry of its architecture, \<open>packages\<close> and \<open>source\<close> together, exactly
  as many times as the triple occurs in the input; at most once, then, when the input
  repeats no triple.
\<close>

theorem gen_lockfile_keeps_every_occurrence:
  assumes "gen_lockfile nv rpms = Inr doc" and "ad \<in> set (arches doc)"
    and "arch ad = rpm_arch rpm"
  shows "count_list (packages ad @ source ad) (item rpm) = count_list rpms rpm"
proof -
  from gen_lockfile_arch_entry [OF assms(1,2)] assms(3)
  have "count_list (packages ad @ source ad) (item rpm)
      = count_list (packages_of nv (rpm_arch rpm) (sort rpms)
          @ source_of nv (rpm_arch rpm) (sort rpms)) (item rpm)" by simp
  also have "\<dots> = count_list (sort rpms) rpm"
    by (rule count_packages_source_of) simp
  also have "\<dots> = count (mset (sort rpms)) rpm" by (simp only: count_mset)
  also have "\<dots> = count (mset rpms) rpm" by (simp only: mset_sort)
  also have "\<dots> = count_list rpms rpm" by (simp only: count_mset)
  finally show ?thesis .
qed

theorem gen_lockfile_keeps_every_occurrence_witness:
  "gen_lockfile any_netloc
     [(''x86_64'', ''baseos'', ''https://example/repo/x86_64/bash-5.1.rpm''),
      (''x86_64'', ''baseos'', ''https://example/source/bash-5.1.src.rpm''),
      (''x86_64'', ''baseos'', ''https://example/repo/x86_64/bash-5.1.rpm'')]
   = Inr \<lparr>lockfileVersion = 1, lockfileVendor = ''redhat'',
         arches =
           [\<lparr>arch = ''x86_64'',
               packages =
                 [[(''url'', JStr ''https://example/repo/x86_64/bash-5.1.rpm''), (''repoid'', JStr ''baseos'')],
                  [(''url'', JStr ''https://example/repo/x86_64/bash-5.1.rpm''), (''repoid'', JStr ''baseos'')]],
               source = [[(''url'', JStr ''https://example/source/bash-5.1.src.rpm''), (''repoid'', JStr ''baseos'')]]\<rparr>]\<rparr>
   \<and> count_list
        (packages \<lparr>arch = ''x86_64'',
               packages =
                 [[(''url'', JStr ''https://example/repo/x86_64/bash-5.1.rpm''), (''repoid'', JStr ''baseos'')],
                  [(''url'', JStr ''https://example/repo/x86_64/bash-5.1.rpm''), (''repoid'', JStr ''baseos'')]],
               source = [[(''url'', JStr ''https://example/source/bash-5.1.src.rpm''), (''repoid'', JStr ''baseos'')]]\<rparr>
         @ source \<lparr>arch = ''x86_64'',
               packages =
                 [[(''url'', JStr ''https://example/repo/x86_64/bash-5.1.rpm''), (''repoid'', JStr ''baseos'')],
                  [(''url'', JStr ''https://example/repo/x86_64/bash-5.1.rpm''), (''repoid'', JStr ''baseos'')]],
               source = [[(''url'', JStr ''https://example/source/bash-5.1.src.rpm''), (''repoid'', JStr ''baseos'')]]\<rparr>)
        (item (''x86_64'', ''baseos'', ''https://example/repo/x86_64/bash-5.1.rpm''))
     = count_list
        [(''x86_64'', ''baseos'', ''https://example/repo/x86_64/bash-5.1.rpm''),
        (''x86_64'', ''baseos'', ''https://example/source/bash-5.1.src.rpm''),
        (''x86_64'', ''baseos'', ''https://example/repo/x86_64/bash-5.1.rpm'')]
        (''x86_64'', ''baseos'', ''https://example/repo/x86_64/bash-5.1.rpm'')
   \<and> count_list
        [(''x86_64'', ''baseos'', ''https://example/repo/x86_64/bash-5.1.rpm''),
        (''x86_64'', ''baseos'', ''https://example/source/bash-5.1.src.rpm''),
        (''x86_64'', ''baseos'', ''https://example/repo/x86_64/bash-5.1.rpm'')]
        (''x86_64'', ''baseos'', ''https://example/repo/x86_64/bash-5.1.rpm'') = 2"
proof -
  let ?rpms = "[(''x86_64'', ''baseos'', ''https://example/repo/x86_64/bash-5.1.rpm''),
      (''x86_64'', ''baseos'', ''https://example/source/bash-5.1.src.rpm''),
      (''x86_64'', ''baseos'', ''https://example/repo/x86_64/bash-5.1.rpm'')]"
  let ?ad = "\<lparr>arch = ''x86_64'',
               packages =
                 [[(''url'', JStr ''https://example/repo/x86_64/bash-5.1.rpm''), (''repoid'', JStr ''baseos'')],
                  [(''url'', JStr ''https://example/repo/x86_64/bash-5.1.rpm''), (''repoid'', JStr ''baseos'')]],
               source = [[(''url'', JStr ''https://example/source/bash-5.1.src.rpm''), (''repoid'', JStr ''baseos'')]]\<rparr>"
  have d: "gen_lockfile any_netloc ?rpms = Inr \<lparr>lockfileVersion = 1, lockfileVendor = ''redhat'',
         arches =
           [\<lparr>arch = ''x86_64'',
               packages =
                 [[(''url'', JStr ''https://example/repo/x86_64/bash-5.1.rpm''), (''repoid'', JStr ''baseos'')],
                  [(''url'', JStr ''https://example/repo/x86_64/bash-5.1.rpm''), (''repoid'', JStr ''baseos'')]],
               source = [[(''url'', JStr ''https://example/source/bash-5.1.src.rpm''), (''repoid'', JStr ''baseos'')]]\<rparr>]\<rparr>"
    by code_simp
  have a: "?ad \<in> set (arches \<lparr>lockfileVersion = 1, lockfileVendor = ''redhat'',
         arches =
           [\<lparr>arch = ''x86_64'',
               packages =
                 [[(''url'', JStr ''https://example/repo/x86_64/bash-5.1.rpm''), (''repoid'', JStr ''baseos'')],
                  [(''url'', JStr ''https://example/repo/x86_64/bash-5.1.rpm''), (''repoid'', JStr ''baseos'')]],
               source = [[(''url'', JStr ''https://example/source/bash-5.1.src.rpm''), (''repoid'', JStr ''baseos'')]]\<rparr>]\<rparr>)"
    by simp
  have b: "arch ?ad = rpm_arch (''x86_64'', ''baseos'', ''https://example/repo/x86_64/bash-5.1.rpm'')"
    by (simp add: rpm_arch_def)
  have c: "count_list ?rpms (''x86_64'', ''baseos'', ''https://example/repo/x86_64/bash-5.1.rpm'') = 2"
    by simp
  from gen_lockfile_keeps_every_occurrence [OF d a b] d c show ?thesis by simp
qed

text \<open>
  The claim as stated fails: a triple given twice is written twice, here in the
  \<open>packages\<close> list of its architecture.
\<close>

theorem gen_lockfile_duplicate_counterexample:
  "gen_lockfile any_netloc
     [(''x86_64'', ''baseos'', ''https://example/repo/x86_64/bash-5.1.rpm''),
      (''x86_64'', ''baseos'', ''https://example/repo/x86_64/bash-5.1.rpm'')]
   = Inr \<lparr>lockfileVersion = 1, lockfileVendor = ''redhat'',
         arches =
           [\<lparr>arch = ''x86_64'',
               packages =
                 [[(''url'', JStr ''https://example/repo/x86_64/bash-5.1.rpm''), (''repoid'', JStr ''baseos'')],
                  [(''url'', JStr ''https://example/repo/x86_64/bash-5.1.rpm''), (''repoid'', JStr ''baseos'')]],
               source = []\<rparr>]\<rparr>"
  by code_simp

subsection \<open>Enrichment\<close>

lemma enrich_rpm_Inr:
  assumes "enrich_rpm nv st hx dir a rpm = Inr rpm'"
  shows "\<exists>r u fn rpm1.
      map_of rpm ''repoid'' = Some (JStr r) \<and> map_of rpm ''url'' = Some (JStr u)
    \<and> filename nv u = Inr fn
    \<and> fill_size st (downloaded_rpm dir a r fn) rpm = Inr rpm1
    \<and> fill_checksum hx (downloaded_rpm dir a r fn) rpm1 = Inr rpm'"
proof -
  from assms obtain rv where rv: "map_of rpm ''repoid'' = Some rv"
    by (auto simp: enrich_rpm_def split: option.splits)
  from assms rv obtain u where u: "map_of rpm ''url'' = Some (JStr u)"
    by (auto simp: enrich_rpm_def split: option.splits json.splits)
  from assms rv u obtain fn where fn: "filename nv u = Inr fn"
    by (auto simp: enrich_rpm_def split: sum.splits)
  from assms rv u fn obtain r where r: "rv = JStr r"
    by (auto simp: enrich_rpm_def split: json.splits)
  from assms rv u fn r obtain rpm1 where
    "fill_size st (downloaded_rpm dir a r fn) rpm = Inr rpm1"
    "fill_checksum hx (downloaded_rpm dir a r fn) rpm1 = Inr rpm'"
    by (auto simp: enrich_rpm_def split: sum.splits)
  with rv u fn r show ?thesis by blast
qed

lemma enrich_rpm_Inr_intro:
  "map_of rpm ''repoid'' = Some (JStr r) \<Longrightarrow> map_of rpm ''url'' = Some (JStr u)
    \<Longrightarrow> filename nv u = Inr fn
    \<Longrightarrow> fill_size st (downloaded_rpm dir a r fn) rpm = Inr rpm1
    \<Longrightarrow> fill_checksum hx (downloaded_rpm dir a r fn) rpm1 = Inr rpm'
    \<Longrightarrow> enrich_rpm nv st hx dir a rpm = Inr rpm'"
  by (simp add: enrich_rpm_def)

lemma fill_size_kept: "fill_size st p rpm = Inr rpm' \<Longrightarrow> kept_entry rpm rpm'"
  by (auto simp: fill_size_def kept_entry_def update_conv' split: if_splits sum.splits)

lemma fill_checksum_kept: "fill_checksum hx p rpm = Inr rpm' \<Longrightarrow> kept_entry rpm rpm'"
  by (auto simp: fill_checksum_def kept_entry_def update_conv' split: if_splits sum.splits)

lemma kept_entry_refl: "kept_entry rpm rpm"
  by (simp add: kept_entry_def)

lemma kept_entryD:
  "kept_entry rpm rpm' \<Longrightarrow> (k \<noteq> ''size'' \<and> k \<noteq> ''checksum'') \<or> truthy (map_of rpm k)
     \<Longrightarrow> map_of rpm' k = map_of rpm k"
  unfolding kept_entry_def by blast

lemma fill_size_same_other:
  "fill_size st p rpm = Inr rpm' \<Longrightarrow> k \<noteq> ''size'' \<Longrightarrow> map_of rpm' k = map_of rpm k"
  by (auto simp: fill_size_def update_conv' split: if_splits sum.splits)

lemma fill_checksum_same_other:
  "fill_checksum hx p rpm = Inr rpm' \<Longrightarrow> k \<noteq> ''checksum'' \<Longrightarrow> map_of rpm' k = map_of rpm k"
  by (auto simp: fill_checksum_def update_conv' split: if_splits sum.splits)

lemma enrich_rpm_kept:
  assumes "enrich_rpm nv st hx dir a rpm = Inr rpm'"
  shows "kept_entry rpm rpm'"
proof -
  from enrich_rpm_Inr [OF assms] obtain r fn rpm1 where
    s: "fill_size st (downloaded_rpm dir a r fn) rpm = Inr rpm1"
    and c: "fill_checksum hx (downloaded_rpm dir a r fn) rpm1 = Inr rpm'" by blast
  show ?thesis
    unfolding kept_entry_def
  proof (intro allI impI)
    fix k
    assume k: "(k \<noteq> ''size'' \<and> k \<noteq> ''checksum'') \<or> truthy (map_of rpm k)"
    from fill_size_kept [OF s] k have 1: "map_of rpm1 k = map_of rpm k"
      by (rule kept_entryD)
    with k have "(k \<noteq> ''size'' \<and> k \<noteq> ''checksum'') \<or> truthy (map_of rpm1 k)" by simp
    with fill_checksum_kept [OF c] have "map_of rpm' k = map_of rpm1 k"
      by (rule kept_entryD)
    with 1 show "map_of rpm' k = map_of rpm k" by simp
  qed
qed

lemma fill_size_populated: "truthy (map_of rpm ''size'') \<Longrightarrow> fill_size st p rpm = Inr rpm"
  by (simp add: fill_size_def)

lemma fill_checksum_populated:
  "truthy (map_of rpm ''checksum'') \<Longrightarrow> fill_checksum hx p rpm = Inr rpm"
  by (simp add: fill_checksum_def)

lemma enrich_rpm_populated:
  assumes "populated rpm" and "readable nv rpm"
  shows "enrich_rpm nv st hx dir a rpm = Inr rpm"
proof -
  from assms(2) obtain r u fn where
    "map_of rpm ''repoid'' = Some (JStr r)" "map_of rpm ''url'' = Some (JStr u)"
    "filename nv u = Inr fn"
    by (auto simp: readable_def split: option.splits json.splits sum.splits)
  moreover from assms(1) have "fill_size st (downloaded_rpm dir a r fn) rpm = Inr rpm"
    "fill_checksum hx (downloaded_rpm dir a r fn) rpm = Inr rpm"
    by (simp_all add: populated_def fill_size_populated fill_checksum_populated)
  ultimately show ?thesis by (rule enrich_rpm_Inr_intro)
qed

lemma enrich_rpm_readable:
  "enrich_rpm nv st hx dir a rpm = Inr rpm' \<Longrightarrow> readable nv rpm"
  by (auto dest!: enrich_rpm_Inr simp: readable_def)

lemma enrich_rpm_populated_unchanged:
  assumes "populated rpm" and "enrich_rpm nv st hx dir a rpm = Inr rpm'"
  shows "rpm' = rpm"
proof -
  from assms(2) have "readable nv rpm" by (rule enrich_rpm_readable)
  with assms(1) have "enrich_rpm nv st hx dir a rpm = Inr rpm" by (rule enrich_rpm_populated)
  with assms(2) show ?thesis by simp
qed

lemma fill_size_idem: "fill_size st p rpm = Inr rpm' \<Longrightarrow> fill_size st p rpm' = Inr rpm'"
  by (auto simp: fill_size_def update_conv' truthy_def update_triv split: if_splits sum.splits)

lemma fill_checksum_idem:
  "fill_checksum hx p rpm = Inr rpm' \<Longrightarrow> fill_checksum hx p rpm' = Inr rpm'"
  by (auto simp: fill_checksum_def update_conv' truthy_def split: if_splits sum.splits)

lemma fill_checksum_truthy:
  "fill_checksum hx p rpm = Inr rpm' \<Longrightarrow> truthy (map_of rpm' ''checksum'')"
  by (auto simp: fill_checksum_def update_conv' truthy_def split: if_splits sum.splits)

lemma fill_size_fixed:
  assumes "fill_size st p x = Inr x" and "map_of y ''size'' = map_of x ''size''"
  shows "fill_size st p y = Inr y"
proof (cases "truthy (map_of x ''size'')")
  case True
  with assms(2) show ?thesis by (simp add: fill_size_def)
next
  case False
  with assms(1) obtain n where n: "st p = Inr n" "AList.update ''size'' (JInt n) x = x"
    by (auto simp: fill_size_def split: sum.splits)
  have "map_of (AList.update ''size'' (JInt n) x) ''size'' = Some (JInt n)"
    by (simp add: update_conv')
  with n(2) assms(2) have "map_of y ''size'' = Some (JInt n)" by simp
  then have "AList.update ''size'' (JInt n) y = y" by (rule update_triv)
  with False assms(2) n(1) show ?thesis by (simp add: fill_size_def)
qed

lemma enrich_rpm_idem:
  assumes "enrich_rpm nv st hx dir a rpm = Inr rpm'"
  shows "enrich_rpm nv st hx dir a rpm' = Inr rpm'"
proof -
  from enrich_rpm_Inr [OF assms] obtain r u fn rpm1 where
    r: "map_of rpm ''repoid'' = Some (JStr r)" and u: "map_of rpm ''url'' = Some (JStr u)"
    and fn: "filename nv u = Inr fn"
    and s: "fill_size st (downloaded_rpm dir a r fn) rpm = Inr rpm1"
    and c: "fill_checksum hx (downloaded_rpm dir a r fn) rpm1 = Inr rpm'" by blast
  from enrich_rpm_kept [OF assms]
  have "map_of rpm' ''repoid'' = map_of rpm ''repoid''" "map_of rpm' ''url'' = map_of rpm ''url''"
    by (simp_all add: kept_entryD)
  with r u have r': "map_of rpm' ''repoid'' = Some (JStr r)"
    and u': "map_of rpm' ''url'' = Some (JStr u)" by simp_all
  from fill_size_idem [OF s] have "fill_size st (downloaded_rpm dir a r fn) rpm1 = Inr rpm1" .
  moreover from fill_checksum_same_other [OF c, of "''size''"]
  have "map_of rpm' ''size'' = map_of rpm1 ''size''" by simp
  ultimately have s': "fill_size st (downloaded_rpm dir a r fn) rpm' = Inr rpm'"
    by (rule fill_size_fixed)
  from fill_checksum_idem [OF c]
  have c': "fill_checksum hx (downloaded_rpm dir a r fn) rpm' = Inr rpm'" .
  from r' u' fn s' c' show ?thesis by (rule enrich_rpm_Inr_intro)
qed

lemma enrich_rpms_Inr_iff:
  "enrich_rpms nv st hx dir a xs = Inr ys \<longleftrightarrow>
     list_all2 (\<lambda>x y. enrich_rpm nv st hx dir a x = Inr y) xs ys"
proof (induction xs arbitrary: ys)
  case Nil
  then show ?case by auto
next
  case (Cons x xs)
  show ?case
  proof (cases ys)
    case Nil
    then show ?thesis by (auto split: sum.splits)
  next
    case (Cons y ys')
    with Cons.IH [of ys'] show ?thesis by (auto split: sum.splits)
  qed
qed

lemma enrich_arches_Inr_iff:
  "enrich_arches nv st hx dir xs = Inr ys \<longleftrightarrow>
     list_all2 (\<lambda>x y. enrich_arch nv st hx dir x = Inr y) xs ys"
proof (induction xs arbitrary: ys)
  case Nil
  then show ?case by auto
next
  case (Cons x xs)
  show ?case
  proof (cases ys)
    case Nil
    then show ?thesis by (auto split: sum.splits)
  next
    case (Cons y ys')
    with Cons.IH [of ys'] show ?thesis by (auto split: sum.splits)
  qed
qed

lemma enrich_arch_Inr:
  assumes "enrich_arch nv st hx dir ad = Inr ad'"
  shows "arch ad' = arch ad
    \<and> list_all2 (\<lambda>x y. enrich_rpm nv st hx dir (arch ad) x = Inr y) (packages ad) (packages ad')
    \<and> list_all2 (\<lambda>x y. enrich_rpm nv st hx dir (arch ad) x = Inr y) (source ad) (source ad')"
proof -
  from assms obtain rs where
    rs: "enrich_rpms nv st hx dir (arch ad) (packages ad @ source ad) = Inr rs"
    and ad': "ad' = ad\<lparr>packages := take (length (packages ad)) rs,
                        source := drop (length (packages ad)) rs\<rparr>"
    by (auto simp: enrich_arch_def split: sum.splits)
  from rs have l: "list_all2 (\<lambda>x y. enrich_rpm nv st hx dir (arch ad) x = Inr y)
      (packages ad @ source ad) rs"
    by (simp add: enrich_rpms_Inr_iff)
  from list_all2_takeI [OF l, of "length (packages ad)"]
       list_all2_dropI [OF l, of "length (packages ad)"] ad'
  show ?thesis by simp
qed

lemma enrich_arch_Inr_intro:
  assumes "list_all2 (\<lambda>x y. enrich_rpm nv st hx dir (arch ad) x = Inr y) (packages ad) pk"
    and "list_all2 (\<lambda>x y. enrich_rpm nv st hx dir (arch ad) x = Inr y) (source ad) sr"
  shows "enrich_arch nv st hx dir ad = Inr (ad\<lparr>packages := pk, source := sr\<rparr>)"
proof -
  from assms have "list_all2 (\<lambda>x y. enrich_rpm nv st hx dir (arch ad) x = Inr y)
      (packages ad @ source ad) (pk @ sr)"
    by (rule list_all2_appendI)
  then have "enrich_rpms nv st hx dir (arch ad) (packages ad @ source ad) = Inr (pk @ sr)"
    by (simp add: enrich_rpms_Inr_iff)
  moreover from assms(1) have "length pk = length (packages ad)"
    by (simp add: list_all2_lengthD)
  ultimately show ?thesis by (simp add: enrich_arch_def)
qed

lemma list_all2_same_iff: "list_all2 (\<lambda>x y. f x = Inr y) xs xs \<longleftrightarrow> (\<forall>x \<in> set xs. f x = Inr x)"
  by (simp add: list_all2_same)

lemma enrich_arch_kept:
  assumes "enrich_arch nv st hx dir ad = Inr ad'"
  shows "kept_arch ad ad'"
proof -
  have "list_all2 kept_entry xs ys"
    if "list_all2 (\<lambda>x y. enrich_rpm nv st hx dir (arch ad) x = Inr y) xs ys" for xs ys
    using that by (rule list_all2_mono) (rule enrich_rpm_kept)
  with enrich_arch_Inr [OF assms] show ?thesis by (simp add: kept_arch_def)
qed

lemma enrich_arch_idem:
  assumes "enrich_arch nv st hx dir ad = Inr ad'"
  shows "enrich_arch nv st hx dir ad' = Inr ad'"
proof -
  have same: "list_all2 (\<lambda>x y. enrich_rpm nv st hx dir (arch ad) x = Inr y) ys ys"
    if "list_all2 (\<lambda>x y. enrich_rpm nv st hx dir (arch ad) x = Inr y) xs ys" for xs ys
  proof -
    have "enrich_rpm nv st hx dir (arch ad) y = Inr y" if "y \<in> set ys" for y
    proof -
      from \<open>y \<in> set ys\<close> \<open>list_all2 _ xs ys\<close> obtain x where
        "enrich_rpm nv st hx dir (arch ad) x = Inr y"
        by (auto simp: list_all2_conv_all_nth in_set_conv_nth)
      then show ?thesis by (rule enrich_rpm_idem)
    qed
    then show ?thesis by (simp add: list_all2_same)
  qed
  from enrich_arch_Inr [OF assms] have a: "arch ad' = arch ad"
    and p: "list_all2 (\<lambda>x y. enrich_rpm nv st hx dir (arch ad') x = Inr y) (packages ad') (packages ad')"
    and s: "list_all2 (\<lambda>x y. enrich_rpm nv st hx dir (arch ad') x = Inr y) (source ad') (source ad')"
    by (auto dest: same)
  from enrich_arch_Inr_intro [OF p s] show ?thesis by simp
qed

lemma enrich_arch_populated:
  assumes "\<forall>rpm \<in> set (packages ad @ source ad). populated rpm \<and> readable nv rpm"
  shows "enrich_arch nv st hx dir ad = Inr ad"
proof -
  from assms have "\<forall>rpm \<in> set (packages ad @ source ad).
      enrich_rpm nv st hx dir (arch ad) rpm = Inr rpm"
    by (simp add: enrich_rpm_populated)
  then have "list_all2 (\<lambda>x y. enrich_rpm nv st hx dir (arch ad) x = Inr y) (packages ad) (packages ad)"
    and "list_all2 (\<lambda>x y. enrich_rpm nv st hx dir (arch ad) x = Inr y) (source ad) (source ad)"
    by (simp_all add: list_all2_same)
  from enrich_arch_Inr_intro [OF this] show ?thesis by simp
qed

lemma enrich_arch_readable:
  assumes "enrich_arch nv st hx dir ad = Inr ad'" and "rpm \<in> set (packages ad @ source ad)"
  shows "readable nv rpm"
proof -
  from enrich_arch_Inr [OF assms(1)] assms(2)
  obtain rpm' where "enrich_rpm nv st hx dir (arch ad) rpm = Inr rpm'"
    by (auto simp: list_all2_conv_all_nth in_set_conv_nth)
  then show ?thesis by (rule enrich_rpm_readable)
qed

text \<open>
  Claim C5 (as amended). A document whose entries all have a \<open>size\<close> and a \<open>checksum\<close>
  that are present and true in Python's sense (not \<^verbatim>\<open>null\<close>, zero or empty), and whose
  entries are readable, is returned as it is, whatever is on disk. Whenever enrichment
  returns a document, it is the input when all entries were populated in this sense; the
  version, the vendor, the architectures and the number of entries are the input's; in
  every entry, each key other than \<open>size\<close> and \<open>checksum\<close> and each \<open>size\<close> or
  \<open>checksum\<close> that was true keeps its value; and enriching the result again, with the same
  files, returns it unchanged.
\<close>

theorem enhance_fills_only_missing_fields:
  "(list_all populated (entries_of doc) \<and> list_all (readable nv) (entries_of doc)
      \<longrightarrow> enhance_with_size_and_checksum nv st hx dir doc = Inr doc)
   \<and> (enhance_with_size_and_checksum nv st hx dir doc = Inr doc' \<longrightarrow>
        (list_all populated (entries_of doc) \<longrightarrow> doc' = doc)
      \<and> lockfileVersion doc' = lockfileVersion doc
      \<and> lockfileVendor doc' = lockfileVendor doc
      \<and> list_all2 kept_arch (arches doc) (arches doc')
      \<and> enhance_with_size_and_checksum nv st hx dir doc' = Inr doc')"
proof -
  have full: "enhance_with_size_and_checksum nv st hx dir doc = Inr doc"
    if "list_all populated (entries_of doc)" "list_all (readable nv) (entries_of doc)"
  proof -
    from that have "\<forall>ad \<in> set (arches doc).
        \<forall>rpm \<in> set (packages ad @ source ad). populated rpm \<and> readable nv rpm"
      by (auto simp: entries_of_def list_all_iff)
    then have "\<forall>ad \<in> set (arches doc). enrich_arch nv st hx dir ad = Inr ad"
      by (simp add: enrich_arch_populated)
    then have "list_all2 (\<lambda>x y. enrich_arch nv st hx dir x = Inr y) (arches doc) (arches doc)"
      by (simp add: list_all2_same)
    then have "enrich_arches nv st hx dir (arches doc) = Inr (arches doc)"
      by (simp add: enrich_arches_Inr_iff)
    then show ?thesis by (simp add: enhance_with_size_and_checksum_def)
  qed
  have rest: "(list_all populated (entries_of doc) \<longrightarrow> doc' = doc)
      \<and> lockfileVersion doc' = lockfileVersion doc
      \<and> lockfileVendor doc' = lockfileVendor doc
      \<and> list_all2 kept_arch (arches doc) (arches doc')
      \<and> enhance_with_size_and_checksum nv st hx dir doc' = Inr doc'"
    if run: "enhance_with_size_and_checksum nv st hx dir doc = Inr doc'"
  proof -
    from run obtain ads where ads: "enrich_arches nv st hx dir (arches doc) = Inr ads"
      and doc': "doc' = doc\<lparr>arches := ads\<rparr>"
      by (auto simp: enhance_with_size_and_checksum_def split: sum.splits)
    from ads have l: "list_all2 (\<lambda>x y. enrich_arch nv st hx dir x = Inr y) (arches doc) ads"
      by (simp add: enrich_arches_Inr_iff)
    have r: "list_all (readable nv) (entries_of doc)"
    proof -
      have "readable nv rpm" if "ad \<in> set (arches doc)" "rpm \<in> set (packages ad @ source ad)"
        for ad rpm
      proof -
        from l that(1) obtain ad' where "enrich_arch nv st hx dir ad = Inr ad'"
          by (auto simp: list_all2_conv_all_nth in_set_conv_nth)
        then show ?thesis using that(2) by (rule enrich_arch_readable)
      qed
      then show ?thesis by (auto simp: entries_of_def list_all_iff)
    qed
    have 1: "doc' = doc" if "list_all populated (entries_of doc)"
      using full [OF that r] run by simp
    from l have 2: "list_all2 kept_arch (arches doc) ads"
      by (rule list_all2_mono) (rule enrich_arch_kept)
    have "enrich_arch nv st hx dir y = Inr y" if "y \<in> set ads" for y
    proof -
      from l that obtain x where "enrich_arch nv st hx dir x = Inr y"
        by (auto simp: list_all2_conv_all_nth in_set_conv_nth)
      then show ?thesis by (rule enrich_arch_idem)
    qed
    then have "list_all2 (\<lambda>x y. enrich_arch nv st hx dir x = Inr y) ads ads"
      by (simp add: list_all2_same)
    then have "enrich_arches nv st hx dir ads = Inr ads"
      by (simp add: enrich_arches_Inr_iff)
    with doc' have 3: "enhance_with_size_and_checksum nv st hx dir doc' = Inr doc'"
      by (simp add: enhance_with_size_and_checksum_def)
    from 1 2 3 doc' show ?thesis by simp
  qed
  from full rest show ?thesis by blast
qed

theorem enhance_fills_only_missing_fields_witness:
  "enhance_with_size_and_checksum any_netloc example_st_size example_hexdigest ''cachi2-output''
     \<lparr>lockfileVersion = 1, lockfileVendor = ''redhat'',
       arches = [\<lparr>arch = ''x86_64'',
                   packages = [[(''url'', JStr ''https://example/repo/x86_64/bash-5.1.rpm''), (''repoid'', JStr ''baseos''),
                                (''size'', JInt 2048)]],
                   source = []\<rparr>]\<rparr>
   = Inr \<lparr>lockfileVersion = 1, lockfileVendor = ''redhat'',
       arches = [\<lparr>arch = ''x86_64'',
                   packages = [[(''url'', JStr ''https://example/repo/x86_64/bash-5.1.rpm''), (''repoid'', JStr ''baseos''),
                                (''size'', JInt 2048),
                                (''checksum'', JStr ''sha256:9f86d081884c7d659a2feaa0c55ad015a3bf4f1b2b0b822cd15d6c15b0f00a08'')]],
                   source = []\<rparr>]\<rparr>
   \<and> list_all populated (entries_of \<lparr>lockfileVersion = 1, lockfileVendor = ''redhat'',
       arches = [\<lparr>arch = ''x86_64'',
                   packages = [[(''url'', JStr ''https://example/repo/x86_64/bash-5.1.rpm''), (''repoid'', JStr ''baseos''),
                                (''size'', JInt 2048),
                                (''checksum'', JStr ''sha256:9f86d081884c7d659a2feaa0c55ad015a3bf4f1b2b0b822cd15d6c15b0f00a08'')]],
                   source = []\<rparr>]\<rparr>)
   \<and> enhance_with_size_and_checksum any_netloc example_st_size example_hexdigest ''cachi2-output''
     \<lparr>lockfileVersion = 1, lockfileVendor = ''redhat'',
       arches = [\<lparr>arch = ''x86_64'',
                   packages = [[(''url'', JStr ''https://example/repo/x86_64/bash-5.1.rpm''), (''repoid'', JStr ''baseos''),
                                (''size'', JInt 2048),
                                (''checksum'', JStr ''sha256:9f86d081884c7d659a2feaa0c55ad015a3bf4f1b2b0b822cd15d6c15b0f00a08'')]],
                   source = []\<rparr>]\<rparr>
   = Inr \<lparr>lockfileVersion = 1, lockfileVendor = ''redhat'',
       arches = [\<lparr>arch = ''x86_64'',
                   packages = [[(''url'', JStr ''https://example/repo/x86_64/bash-5.1.rpm''), (''repoid'', JStr ''baseos''),
                                (''size'', JInt 2048),
                                (''checksum'', JStr ''sha256:9f86d081884c7d659a2feaa0c55ad015a3bf4f1b2b0b822cd15d6c15b0f00a08'')]],
                   source = []\<rparr>]\<rparr>
   \<and> list_all2 kept_arch
       (arches \<lparr>lockfileVersion = 1, lockfileVendor = ''redhat'',
       arches = [\<lparr>arch = ''x86_64'',
                   packages = [[(''url'', JStr ''https://example/repo/x86_64/bash-5.1.rpm''), (''repoid'', JStr ''baseos''),
                                (''size'', JInt 2048)]],
                   source = []\<rparr>]\<rparr>)
       (arches \<lparr>lockfileVersion = 1, lockfileVendor = ''redhat'',
       arches = [\<lparr>arch = ''x86_64'',
                   packages = [[(''url'', JStr ''https://example/repo/x86_64/bash-5.1.rpm''), (''repoid'', JStr ''baseos''),
                                (''size'', JInt 2048),
                                (''checksum'', JStr ''sha256:9f86d081884c7d659a2feaa0c55ad015a3bf4f1b2b0b822cd15d6c15b0f00a08'')]],
                   source = []\<rparr>]\<rparr>)"
proof -
  let ?partial = "\<lparr>lockfileVersion = 1, lockfileVendor = ''redhat'',
       arches = [\<lparr>arch = ''x86_64'',
                   packages = [[(''url'', JStr ''https://example/repo/x86_64/bash-5.1.rpm''), (''repoid'', JStr ''baseos''),
                                (''size'', JInt 2048)]],
                   source = []\<rparr>]\<rparr>"
  let ?full = "\<lparr>lockfileVersion = 1, lockfileVendor = ''redhat'',
       arches = [\<lparr>arch = ''x86_64'',
                   packages = [[(''url'', JStr ''https://example/repo/x86_64/bash-5.1.rpm''), (''repoid'', JStr ''baseos''),
                                (''size'', JInt 2048),
                                (''checksum'', JStr ''sha256:9f86d081884c7d659a2feaa0c55ad015a3bf4f1b2b0b822cd15d6c15b0f00a08'')]],
                   source = []\<rparr>]\<rparr>"
  have run: "enhance_with_size_and_checksum any_netloc example_st_size example_hexdigest
      ''cachi2-output'' ?partial = Inr ?full"
    by code_simp
  have p: "list_all populated (entries_of ?full)"
    by code_simp
  have r: "list_all (readable any_netloc) (entries_of ?full)"
    by code_simp
  from enhance_fills_only_missing_fields
         [of ?full any_netloc example_st_size example_hexdigest "''cachi2-output''"] p r
  have again: "enhance_with_size_and_checksum any_netloc example_st_size example_hexdigest
      ''cachi2-output'' ?full = Inr ?full"
    by blast
  from enhance_fills_only_missing_fields
         [of ?partial any_netloc example_st_size example_hexdigest "''cachi2-output''" ?full] run
  have "list_all2 kept_arch (arches ?partial) (arches ?full)"
    by blast
  with run p again show ?thesis by blast
qed

text \<open>
  The claim as stated fails for values that are present and false: the entry below has
  both a \<open>size\<close>, zero, and a \<open>checksum\<close>, and enrichment replaces the size by the one
  of the file on disk.
\<close>

theorem enhance_overwrites_zero_size_counterexample:
  "map_of [(''url'', JStr ''https://example/repo/x86_64/bash-5.1.rpm''), (''repoid'', JStr ''baseos''),
                                (''size'', JInt 0),
                                (''checksum'', JStr ''sha256:9f86d081884c7d659a2feaa0c55ad015a3bf4f1b2b0b822cd15d6c15b0f00a08'')] ''size'' = Some (JInt 0)
   \<and> enhance_with_size_and_checksum any_netloc example_st_size example_hexdigest ''cachi2-output''
     \<lparr>lockfileVersion = 1, lockfileVendor = ''redhat'',
       arches = [\<lparr>arch = ''x86_64'',
                   packages = [[(''url'', JStr ''https://example/repo/x86_64/bash-5.1.rpm''), (''repoid'', JStr ''baseos''),
                                (''size'', JInt 0),
                                (''checksum'', JStr ''sha256:9f86d081884c7d659a2feaa0c55ad015a3bf4f1b2b0b822cd15d6c15b0f00a08'')]],
                   source = []\<rparr>]\<rparr>
   = Inr \<lparr>lockfileVersion = 1, lockfileVendor = ''redhat'',
       arches = [\<lparr>arch = ''x86_64'',
                   packages = [[(''url'', JStr ''https://example/repo/x86_64/bash-5.1.rpm''), (''repoid'', JStr ''baseos''),
                                (''size'', JInt 1024),
                                (''checksum'', JStr ''sha256:9f86d081884c7d659a2feaa0c55ad015a3bf4f1b2b0b822cd15d6c15b0f00a08'')]],
                   source = []\<rparr>]\<rparr>"
  by code_simp

subsection \<open>Resolution and the repository set\<close>

lemma filter_urls_Inl: "filter_urls nv ls = Inl e \<Longrightarrow> \<exists>l \<in> set ls. e = InvalidURL l"
  by (induction ls arbitrary: e) (auto split: sum.splits dest: urlsplit_Inl)

lemma filter_urls_Inr: "filter_urls nv ls = Inr urls \<Longrightarrow> urls = filter (has_scheme nv) ls"
  by (induction ls arbitrary: urls) (auto simp: has_scheme_def split: sum.splits if_splits)

lemma splitlines_empty: "splitlines [] = []"
  by (simp add: splitlines_def)

text \<open>
  Claim C6 (as amended). When the tool exits with a non-zero status: a call for binary
  packages prints the tool's diagnostic text and raises \<^verbatim>\<open>CalledProcessError\<close>; a call
  for source packages prints the warning and the tool's diagnostic text, raises no
  \<^verbatim>\<open>CalledProcessError\<close>, and goes on to return the lines of the tool's output that
  have a scheme (raising only if a line does not split). The result is empty when the
  tool printed nothing.
\<close>

theorem resolve_urls_failure_semantics:
  assumes "run w (dnf_cmd pkgs reposdir repoid a want_source) = (Inr proc, w')"
    and "returncode proc \<noteq> 0"
  shows "(\<not> want_source \<longrightarrow>
            resolve_urls nv run w pkgs reposdir repoid a want_source
              = (Inl (CalledProcessError (returncode proc)), [ToolStderr (stderr proc)], w'))
       \<and> (want_source \<longrightarrow>
            resolve_urls nv run w pkgs reposdir repoid a want_source
              = (filter_urls nv (splitlines (stdout proc)),
                 [Warning repoid, ToolStderr (stderr proc)], w')
          \<and> (\<forall>e. filter_urls nv (splitlines (stdout proc)) = Inl e
                \<longrightarrow> (\<exists>l \<in> set (splitlines (stdout proc)). e = InvalidURL l))
          \<and> (\<forall>urls. filter_urls nv (splitlines (stdout proc)) = Inr urls
                \<longrightarrow> urls = filter (has_scheme nv) (splitlines (stdout proc)))
          \<and> (stdout proc = [] \<longrightarrow> filter_urls nv (splitlines (stdout proc)) = Inr []))"
proof -
  have 1: "resolve_urls nv run w pkgs reposdir repoid a want_source
      = (Inl (CalledProcessError (returncode proc)), [ToolStderr (stderr proc)], w')"
    if "\<not> want_source"
    using that assms by (simp add: resolve_urls_def)
  have 2: "resolve_urls nv run w pkgs reposdir repoid a want_source
      = (filter_urls nv (splitlines (stdout proc)),
         [Warning repoid, ToolStderr (stderr proc)], w')"
    if want_source
    using that assms by (simp add: resolve_urls_def)
  have 3: "\<exists>l \<in> set (splitlines (stdout proc)). e = InvalidURL l"
    if "filter_urls nv (splitlines (stdout proc)) = Inl e" for e
    using that by (rule filter_urls_Inl)
  have 4: "urls = filter (has_scheme nv) (splitlines (stdout proc))"
    if "filter_urls nv (splitlines (stdout proc)) = Inr urls" for urls
    using that by (rule filter_urls_Inr)
  have 5: "filter_urls nv (splitlines (stdout proc)) = Inr []" if "stdout proc = []"
    using that by (simp add: splitlines_empty)
  from 1 2 3 4 5 show ?thesis by blast
qed

theorem resolve_urls_failure_semantics_witness:
  "example_dnf 0 (dnf_cmd [''bash'', ''zlib''] ''/repos'' ''baseos'' ''x86_64'' True)
     = (Inr \<lparr>returncode = 1,
              stdout = ''https://example/source/bash-5.1.src.rpm'' @ [CHR 0x0A],
              stderr = ''Error: No package zlib-src available.''\<rparr>, 1)
   \<and> resolve_urls any_netloc example_dnf 0 [''bash'', ''zlib''] ''/repos'' ''baseos'' ''x86_64'' True
     = (filter_urls any_netloc
          (splitlines (''https://example/source/bash-5.1.src.rpm'' @ [CHR 0x0A])),
        [Warning ''baseos'', ToolStderr ''Error: No package zlib-src available.''], 1)"
proof -
  let ?proc = "\<lparr>returncode = 1,
              stdout = ''https://example/source/bash-5.1.src.rpm'' @ [CHR 0x0A],
              stderr = ''Error: No package zlib-src available.''\<rparr>"
  have r: "example_dnf 0 (dnf_cmd [''bash'', ''zlib''] ''/repos'' ''baseos'' ''x86_64'' True)
     = (Inr ?proc, 1)"
    by (simp add: example_dnf_def dnf_cmd_def)
  have c: "returncode ?proc \<noteq> 0" by simp
  from resolve_urls_failure_semantics
         [where run = example_dnf and w = 0 and nv = any_netloc, OF r c] r
  show ?thesis by simp
qed

text \<open>
  The claim as stated fails: the tool exits with the status 1 after printing a URL, and
  the call for source packages returns that URL, not an empty result.
\<close>

theorem resolve_urls_nonempty_after_failure_counterexample:
  "fst (example_dnf 0 (dnf_cmd [''bash'', ''zlib''] ''/repos'' ''baseos'' ''x86_64'' True))
     = Inr \<lparr>returncode = 1,
             stdout = ''https://example/source/bash-5.1.src.rpm'' @ [CHR 0x0A],
             stderr = ''Error: No package zlib-src available.''\<rparr>
   \<and> resolve_urls any_netloc example_dnf 0 [''bash'', ''zlib''] ''/repos'' ''baseos'' ''x86_64'' True
     = (Inr [''https://example/source/bash-5.1.src.rpm''],
        [Warning ''baseos'', ToolStderr ''Error: No package zlib-src available.''], 1)"
  by code_simp

lemma expand_repos_append:
  "expand_repos nv a (pre @ post) mapping =
     (case expand_repos nv a pre mapping of
        Inl e \<Rightarrow> Inl e
      | Inr mapping' \<Rightarrow> expand_repos nv a post mapping')"
proof (induction pre arbitrary: mapping)
  case Nil
  then show ?case by simp
next
  case (Cons x pre)
  obtain r0 at0 where x: "x = (r0, at0)" by (cases x)
  show ?case
    unfolding x using Cons.IH
    by (simp split: option.splits sum.splits)
qed

lemma expand_repos_missing_baseurl:
  "(repoid, attrs) \<in> set repos \<Longrightarrow> attrs ''baseurl'' = None \<Longrightarrow>
     \<exists>e. expand_repos nv a repos mapping = Inl e"
proof (induction repos arbitrary: mapping)
  case Nil
  then show ?case by simp
next
  case (Cons x repos)
  obtain r0 at0 where x: "x = (r0, at0)" by (cases x)
  show ?case
  proof (cases "expand_repos nv a [x] mapping")
    case (Inl e)
    with expand_repos_append [of nv a "[x]" repos mapping] show ?thesis by simp
  next
    case (Inr mapping')
    with x Cons.prems have "(repoid, attrs) \<in> set repos"
      by (auto split: option.splits sum.splits)
    from Cons.IH [OF this Cons.prems(2), of mapping']
    obtain e where "expand_repos nv a repos mapping' = Inl e" ..
    with Inr expand_repos_append [of nv a "[x]" repos mapping] show ?thesis by simp
  qed
qed

text \<open>
  Claim C9 (as amended). \<open>parse_dir\<close> does not look at the attributes, so a section
  without \<open>baseurl\<close> does not make it fail. When the parsed repository set has such a
  section, \<open>map_expanded_baseurls\<close> raises for every non-empty list of architectures:
  the \<^verbatim>\<open>KeyError\<close> for \<open>baseurl\<close> when the sections before it expand for the first
  architecture, the error of an earlier section otherwise. \<open>main\<close> then ends with an
  exception before the package manager is called: nothing is printed, no diagnostic is
  written and the world is as it was.
\<close>

theorem missing_baseurl_raises_before_resolution:
  assumes "parse_dir reposdir_entries = Inr repos"
    and "(repoid, attrs) \<in> set repos" and "attrs ''baseurl'' = None"
  shows "(arch_list \<noteq> [] \<longrightarrow> (\<exists>e. map_expanded_baseurls nv repos arch_list = Inl e))
       \<and> (\<forall>a rest pre post mapping.
             arch_list = a # rest \<and> repos = pre @ (repoid, attrs) # post
             \<and> expand_repos nv a pre [] = Inr mapping
             \<longrightarrow> map_expanded_baseurls nv repos arch_list = Inl (KeyError ''baseurl''))
       \<and> (\<forall>a rest pre post e.
             arch_list = a # rest \<and> repos = pre @ (repoid, attrs) # post
             \<and> expand_repos nv a pre [] = Inl e
             \<longrightarrow> map_expanded_baseurls nv repos arch_list = Inl e)
       \<and> (\<exists>e. resolve_urls_main nv run w input_file reposdir_entries reposdir arch_args machine
               = \<lparr>raised = Some e, printed = [], diagnostics = [], world = w\<rparr>)"
proof -
  have ex: "\<exists>e. map_expanded_baseurls nv repos al = Inl e" if "al \<noteq> []" for al
  proof -
    from that obtain a rest where al: "al = a # rest" by (cases al) auto
    from expand_repos_missing_baseurl [OF assms(2,3), of nv a "[]"]
    obtain e where "expand_repos nv a repos [] = Inl e" ..
    with al show ?thesis by (simp add: map_expanded_baseurls_def)
  qed
  have key: "map_expanded_baseurls nv repos arch_list = Inl (KeyError ''baseurl'')"
    if "arch_list = a # rest" "repos = pre @ (repoid, attrs) # post"
       "expand_repos nv a pre [] = Inr mapping" for a rest pre post mapping
  proof -
    from that(3) assms(3)
    have "expand_repos nv a (pre @ (repoid, attrs) # post) [] = Inl (KeyError ''baseurl'')"
      by (simp add: expand_repos_append)
    with that(1,2) show ?thesis by (simp add: map_expanded_baseurls_def)
  qed
  have early: "map_expanded_baseurls nv repos arch_list = Inl e"
    if "arch_list = a # rest" "repos = pre @ (repoid, attrs) # post"
       "expand_repos nv a pre [] = Inl e" for a rest pre post e
  proof -
    from that(3)
    have "expand_repos nv a (pre @ (repoid, attrs) # post) [] = Inl e"
      by (simp add: expand_repos_append)
    with that(1,2) show ?thesis by (simp add: map_expanded_baseurls_def)
  qed
  have stop: "\<exists>e. resolve_urls_main nv run w input_file reposdir_entries reposdir arch_args machine
               = \<lparr>raised = Some e, printed = [], diagnostics = [], world = w\<rparr>"
  proof (cases "parse_packages_per_repoid input_file")
    case (Inl e)
    then show ?thesis by (simp add: resolve_urls_main_def Let_def)
  next
    case (Inr ppr)
    have "(if arch_args = [] then [machine] else arch_args) \<noteq> []" by simp
    from ex [OF this] obtain e where
      "map_expanded_baseurls nv repos (if arch_args = [] then [machine] else arch_args) = Inl e"
      by blast
    with Inr assms(1) show ?thesis by (simp add: resolve_urls_main_def Let_def)
  qed
  show ?thesis
  proof (intro conjI)
    show "arch_list \<noteq> [] \<longrightarrow> (\<exists>e. map_expanded_baseurls nv repos arch_list = Inl e)"
      using ex by blast
    show "\<forall>a rest pre post mapping.
             arch_list = a # rest \<and> repos = pre @ (repoid, attrs) # post
             \<and> expand_repos nv a pre [] = Inr mapping
             \<longrightarrow> map_expanded_baseurls nv repos arch_list = Inl (KeyError ''baseurl'')"
      using key by blast
    show "\<forall>a rest pre post e.
             arch_list = a # rest \<and> repos = pre @ (repoid, attrs) # post
             \<and> expand_repos nv a pre [] = Inl e
             \<longrightarrow> map_expanded_baseurls nv repos arch_list = Inl e"
      using early by blast
    show "\<exists>e. resolve_urls_main nv run w input_file reposdir_entries reposdir arch_args machine
               = \<lparr>raised = Some e, printed = [], diagnostics = [], world = w\<rparr>"
      by (rule stop)
  qed
qed

theorem missing_baseurl_raises_before_resolution_witness:
  "parse_dir [extras_repo_file] = Inr [(''extras'', extras_attrs)]
   \<and> extras_attrs ''baseurl'' = None
   \<and> map_expanded_baseurls any_netloc [(''extras'', extras_attrs)] [''x86_64'']
       = Inl (KeyError ''baseurl'')
   \<and> resolve_urls_main any_netloc example_dnf 0 [''bash (extras)''] [extras_repo_file]
       ''/repos'' [] ''x86_64''
       = \<lparr>raised = Some (KeyError ''baseurl''), printed = [], diagnostics = [], world = 0\<rparr>"
proof -
  have p: "parse_dir [extras_repo_file] = Inr [(''extras'', extras_attrs)]"
    by (simp add: parse_dir_def extras_repo_file_def dict_update_def DEFAULTSECT_def
        suffix_of_def rfind_dot_def name_def Path_def splitroot_def)
  have m: "(''extras'', extras_attrs) \<in> set [(''extras'', extras_attrs)]" by simp
  have n: "extras_attrs ''baseurl'' = None" by (simp add: extras_attrs_def)
  note inst = missing_baseurl_raises_before_resolution
         [OF p m n, where arch_list = "[''x86_64'']"
            and nv = any_netloc and run = example_dnf and w = 0
            and input_file = "[''bash (extras)'']" and reposdir = "''/repos''"
            and arch_args = "[]" and machine = "''x86_64''"]
  note key = inst [THEN conjunct2, THEN conjunct1, rule_format,
      of "''x86_64''" "[]" "[]" "[]" "[]"]
  have e: "map_expanded_baseurls any_netloc [(''extras'', extras_attrs)] [''x86_64'']
       = Inl (KeyError ''baseurl'')"
    by (rule key) simp
  from inst [THEN conjunct2, THEN conjunct2, THEN conjunct2] obtain e' where r: "resolve_urls_main any_netloc example_dnf 0 [''bash (extras)'']
       [extras_repo_file] ''/repos'' [] ''x86_64''
       = \<lparr>raised = Some e', printed = [], diagnostics = [], world = 0\<rparr>" ..
  have "raised (resolve_urls_main any_netloc example_dnf 0 [''bash (extras)'']
       [extras_repo_file] ''/repos'' [] ''x86_64'') = Some (KeyError ''baseurl'')"
    by (simp add: resolve_urls_main_def Let_def p e parse_packages_per_repoid_def
        strip_parens_def isspace_def)
  with r have "e' = KeyError ''baseurl''" by simp
  with p n e r show ?thesis by simp
qed

text \<open>
  The claim as stated fails: \<open>parse_dir\<close> returns the repository set of a directory whose
  only section has no \<open>baseurl\<close>.
\<close>

theorem parse_dir_accepts_missing_baseurl_counterexample:
  "parse_dir [extras_repo_file] = Inr [(''extras'', extras_attrs)]
   \<and> extras_attrs ''baseurl'' = None"
  by (simp add: parse_dir_def extras_repo_file_def dict_update_def DEFAULTSECT_def
      suffix_of_def rfind_dot_def name_def Path_def splitroot_def extras_attrs_def)

end
